theory Spec2Isabelle
  imports Main "HOL-Library.Word" "HOL-Library.Log_Nat" "HOL-Library.Char_ord"
    "HOL-Library.List_Lexorder" "HOL-Library.Multiset"
begin

section \<open>Image preprocessing for the wildflower classifier\<close>

text \<open>
  A shallow embedding of \<^verbatim>\<open>src/cnn_capstone_img_preprocess.py\<close>. Every Python function
  of the module is a HOL function of the same name. An exception is a value \<open>Inl e\<close> of
  the sum type \<open>exn + 'a\<close>.

  Strings are lists of 8-bit characters, read as the code points below 256. On those the
  regular-expression class \<^verbatim>\<open>\d\<close> is exactly the ten characters \<^verbatim>\<open>0\<close> to \<^verbatim>\<open>9\<close>.
\<close>

datatype exn = TypeError | ValueError | IndexError | ZeroDivisionError | OSError | CvError

subsection \<open>Label extraction (\<^verbatim>\<open>image_categories\<close>)\<close>

definition is_digit :: "char \<Rightarrow> bool" where
  "is_digit c = (c \<in> set ''0123456789'')"

text \<open>
  \<^verbatim>\<open>re.sub("\d+", "", s)\<close>: the scanner walks the string from the left; where a digit
  stands it consumes the longest run of digits and puts the empty replacement in its
  place, everything else is copied.
\<close>

function re_sub_digits :: "string \<Rightarrow> string" where
  "re_sub_digits [] = []"
| "re_sub_digits (c # cs) =
     (if is_digit c then re_sub_digits (dropWhile is_digit cs)
      else c # re_sub_digits cs)"
  by pat_completeness auto
termination
  by (relation "measure length") (auto simp: less_Suc_eq_le length_dropWhile_le)

text \<open>
  \<^verbatim>\<open>s.rstrip(chars)\<close>: the index \<open>j\<close> moves down from the end while the character before
  it belongs to \<open>chars\<close>; the result is the slice \<^verbatim>\<open>s[0:j]\<close>.
\<close>

fun rstrip_end :: "string \<Rightarrow> string \<Rightarrow> nat \<Rightarrow> nat" where
  "rstrip_end s chars 0 = 0"
| "rstrip_end s chars (Suc j) =
     (if s ! j \<in> set chars then rstrip_end s chars j else Suc j)"

definition rstrip :: "string \<Rightarrow> string \<Rightarrow> string" where
  "rstrip s chars = take (rstrip_end s chars (length s)) s"

text \<open>Line 46: \<^verbatim>\<open>img_cat = re.sub("\d+", "", name).rstrip('_.jpg')\<close>.\<close>

definition img_cat :: "string \<Rightarrow> string" where
  "img_cat name = rstrip (re_sub_digits name) ''_.jpg''"

definition startswith :: "string \<Rightarrow> string \<Rightarrow> bool" where
  "startswith s p = (take (length p) s = p)"

text \<open>\<^verbatim>\<open>os.path.join(a, b)\<close> on a POSIX system, for two components.\<close>

definition join :: "string \<Rightarrow> string \<Rightarrow> string" where
  "join a b =
     (if startswith b ''/'' then b
      else if a = [] \<or> last a = CHR ''/'' then a @ b
      else a @ ''/'' @ b)"

text \<open>
  The loop of lines 39 to 48 over the listed names, threading the dictionary.
  The path is the plain concatenation \<^verbatim>\<open>'{}{}'.format(img_root, name)\<close>.
\<close>

fun categories_loop :: "string \<Rightarrow> string list \<Rightarrow> (string \<rightharpoonup> string) \<Rightarrow> (string \<rightharpoonup> string)" where
  "categories_loop img_root [] flower_dict = flower_dict"
| "categories_loop img_root (name # files) flower_dict =
     (if \<not> startswith name ''.''
      then categories_loop img_root files (flower_dict(img_root @ name \<mapsto> img_cat name))
      else categories_loop img_root files flower_dict)"

text \<open>
  The file system is a parameter: \<open>listdir\<close> gives the names of a directory (or
  raises \<open>OSError\<close>), \<open>isfile\<close> tells the regular files.
\<close>

definition image_categories ::
  "(string \<Rightarrow> exn + string list) \<Rightarrow> (string \<Rightarrow> bool) \<Rightarrow> string \<Rightarrow> exn + (string \<rightharpoonup> string)" where
  "image_categories listdir isfile img_root =
     (case listdir img_root of
        Inl e \<Rightarrow> Inl e
      | Inr names \<Rightarrow>
          Inr (categories_loop img_root [f \<leftarrow> names. isfile (join img_root f)] Map.empty))"

text \<open>
  The label as the specification words it: every decimal digit is removed, then the
  trailing characters that belong to the given set are stripped from the right end.
\<close>

definition spec_label :: "string \<Rightarrow> string" where
  "spec_label name =
     rev (dropWhile (\<lambda>c. c \<in> {CHR ''_'', CHR ''.'', CHR ''j'', CHR ''p'', CHR ''g''})
            (rev (filter (\<lambda>c. \<not> is_digit c) name)))"

subsection \<open>Arrays, sequences and slices\<close>

text \<open>
  An image is a numpy array of three axes: its shape \<open>(rows, cols, chans)\<close> and the
  element at every index triple. Only elements inside the shape are ever meant; the
  pixel type \<open>8 word\<close> is numpy's \<^verbatim>\<open>uint8\<close>.
\<close>

record 'a ndarray =
  rows :: nat
  cols :: nat
  chans :: nat
  px :: "nat \<Rightarrow> nat \<Rightarrow> nat \<Rightarrow> 'a"

definition shape :: "'a ndarray \<Rightarrow> nat \<times> nat \<times> nat" where
  "shape a = (rows a, cols a, chans a)"

text \<open>
  A size argument (\<^verbatim>\<open>new_size\<close>, \<^verbatim>\<open>crop_size\<close>) is a Python sequence of two integers.
  Lists and tuples index alike, but only a list can be concatenated with a list.
\<close>

datatype seq2 = PyList int int | PyTuple int int

fun item0 :: "seq2 \<Rightarrow> int" where
  "item0 (PyList a b) = a"
| "item0 (PyTuple a b) = a"

fun item1 :: "seq2 \<Rightarrow> int" where
  "item1 (PyList a b) = b"
| "item1 (PyTuple a b) = b"

text \<open>
  A slice bound of \<^verbatim>\<open>a[start:stop]\<close> on an axis of length \<open>n\<close>: a negative bound counts
  from the end, and every bound is clipped to \<open>0 .. n\<close>.
\<close>

definition slice_bound :: "int \<Rightarrow> nat \<Rightarrow> nat" where
  "slice_bound i n =
     (if i < 0 then (if i + int n < 0 then 0 else nat (i + int n))
      else if int n \<le> i then n else nat i)"

text \<open>The slice \<^verbatim>\<open>a[start:stop]\<close> as its first index and its length.\<close>

definition py_slice :: "int \<Rightarrow> int \<Rightarrow> nat \<Rightarrow> nat \<times> nat" where
  "py_slice start stop n =
     (let lo = slice_bound start n; hi = slice_bound stop n
      in (lo, if lo < hi then hi - lo else 0))"

text \<open>
  numpy's broadcasting rule for one axis of an assignment: the source axis fits the
  target axis when both have the same length or the source has length 1.
\<close>

definition broadcasts :: "nat \<Rightarrow> nat \<Rightarrow> bool" where
  "broadcasts src_len dst_len = (src_len = dst_len \<or> src_len = 1)"

subsection \<open>Geometry (\<^verbatim>\<open>_center_image\<close>, \<^verbatim>\<open>resize_image_to_square\<close>, \<^verbatim>\<open>crop_image\<close>)\<close>

text \<open>
  \<^verbatim>\<open>_center_image\<close> (an Isabelle name cannot start with an underscore). The buffers are
  computed first; \<^verbatim>\<open>new_size + [img.shape[2]]\<close> raises \<open>TypeError\<close> on a tuple;
  \<^verbatim>\<open>np.zeros\<close> raises \<open>ValueError\<close> on a negative dimension; the slice assignment
  raises \<open>ValueError\<close> when the image does not broadcast to the slice.
\<close>

definition center_image :: "8 word ndarray \<Rightarrow> seq2 \<Rightarrow> exn + 8 word ndarray" where
  "center_image img new_size =
     (let row_buffer = (item0 new_size - int (rows img)) div 2;
          col_buffer = (item1 new_size - int (cols img)) div 2
      in case new_size of
           PyTuple h w \<Rightarrow> Inl TypeError
         | PyList h w \<Rightarrow>
             if h < 0 \<or> w < 0 then Inl ValueError
             else
               let (r0, rl) = py_slice row_buffer (row_buffer + int (rows img)) (nat h);
                   (c0, cl) = py_slice col_buffer (col_buffer + int (cols img)) (nat w)
               in if broadcasts (rows img) rl \<and> broadcasts (cols img) cl
                  then Inr \<lparr>rows = nat h, cols = nat w, chans = chans img,
                        px = (\<lambda>r c k.
                          if r0 \<le> r \<and> r < r0 + rl \<and> c0 \<le> c \<and> c < c0 + cl
                          then px img (if rows img = 1 then 0 else r - r0)
                                      (if cols img = 1 then 0 else c - c0) k
                          else 0)\<rparr>
                  else Inl ValueError)"

text \<open>
  \<^verbatim>\<open>int(a / b)\<close> for integers with \<open>b \<noteq> 0\<close>: the quotient, truncated towards zero.
  (Python 3 divides in double precision first; for image dimensions the double
  quotient truncates to the same integer as the exact one.)
\<close>

definition int_truediv :: "int \<Rightarrow> int \<Rightarrow> int" where
  "int_truediv a b = (if (a < 0) = (b < 0) then \<bar>a\<bar> div \<bar>b\<bar> else - (\<bar>a\<bar> div \<bar>b\<bar>))"

text \<open>
  Lines 69 to 72. \<^verbatim>\<open>tile_size\<close> is passed as \<^verbatim>\<open>dsize\<close>, which OpenCV reads as
  \<open>(width, height)\<close>. Both branches use \<^verbatim>\<open>new_size[1]\<close> only.
\<close>

definition tile_size :: "'a ndarray \<Rightarrow> seq2 \<Rightarrow> exn + int \<times> int" where
  "tile_size img new_size =
     (if rows img > cols img
      then Inr (int_truediv (int (cols img) * item1 new_size) (int (rows img)), item1 new_size)
      else if cols img = 0 then Inl ZeroDivisionError
      else Inr (item1 new_size, int_truediv (int (rows img) * item1 new_size) (int (cols img))))"

text \<open>
  \<^verbatim>\<open>cv2.resize(src, dsize=(width, height))\<close> from OpenCV: the result has \<open>height\<close> rows,
  \<open>width\<close> columns and the channels of the source; an empty source and an empty
  \<open>dsize\<close> (a component that is not positive) raise \<^verbatim>\<open>cv2.error\<close>. The interpolated
  pixel values are the parameter \<open>interp\<close>.

  OpenCV hands its result matrix back as a numpy array, and a matrix of one channel
  comes back as an array of two axes \<open>(height, width)\<close>, without the channel axis, also
  when the source had the shape \<open>(rows, cols, 1)\<close>. The field \<open>ndim\<close> is the number of
  axes of the returned array (numpy's \<^verbatim>\<open>ndim\<close>): the array has the entry \<^verbatim>\<open>shape[2]\<close>
  only when \<open>ndim\<close> is 3. The field \<open>chans\<close> stays the channel count of the matrix.
\<close>

record 'a cv_array = "'a ndarray" +
  ndim :: nat

type_synonym interpolation = "8 word ndarray \<Rightarrow> nat \<Rightarrow> nat \<Rightarrow> nat \<Rightarrow> nat \<Rightarrow> nat \<Rightarrow> 8 word"

definition cv2_resize :: "interpolation \<Rightarrow> 8 word ndarray \<Rightarrow> int \<times> int \<Rightarrow> exn + 8 word cv_array" where
  "cv2_resize interp src dsize =
     (case dsize of (width, height) \<Rightarrow>
        if rows src = 0 \<or> cols src = 0 then Inl CvError
        else if width \<le> 0 \<or> height \<le> 0 then Inl CvError
        else Inr \<lparr>rows = nat height, cols = nat width, chans = chans src,
               px = interp src (nat width) (nat height),
               ndim = (if chans src = 1 then 2 else 3)\<rparr>)"

text \<open>The argument \<^verbatim>\<open>cv2.resize(img, dsize=tile_size)\<close> of line 74: the resized tile.\<close>

definition resized_tile :: "interpolation \<Rightarrow> 8 word ndarray \<Rightarrow> seq2 \<Rightarrow> exn + 8 word cv_array" where
  "resized_tile interp img new_size =
     (case tile_size img new_size of
        Inl e \<Rightarrow> Inl e
      | Inr dsize \<Rightarrow> cv2_resize interp img dsize)"

text \<open>
  \<^verbatim>\<open>_center_image\<close> on the array that \<^verbatim>\<open>cv2.resize\<close> returned. Line 59 evaluates
  \<^verbatim>\<open>img.shape[2]\<close> before it concatenates: on an array of two axes that raises
  \<open>IndexError\<close>, for a list and for a tuple \<^verbatim>\<open>new_size\<close> alike. An array of three axes is
  centred as \<open>center_image\<close> says.
\<close>

definition center_image_nd :: "8 word cv_array \<Rightarrow> seq2 \<Rightarrow> exn + 8 word ndarray" where
  "center_image_nd img new_size =
     (if ndim img < 3 then Inl IndexError
      else center_image \<lparr>rows = rows img, cols = cols img, chans = chans img, px = px img\<rparr>
             new_size)"

definition resize_image_to_square ::
  "interpolation \<Rightarrow> 8 word ndarray \<Rightarrow> seq2 \<Rightarrow> exn + 8 word ndarray" where
  "resize_image_to_square interp img new_size =
     (case resized_tile interp img new_size of
        Inl e \<Rightarrow> Inl e
      | Inr tile \<Rightarrow> center_image_nd tile new_size)"

text \<open>\<^verbatim>\<open>crop_image\<close>: a slice of the first two axes; slicing never raises.\<close>

definition crop_image :: "'a ndarray \<Rightarrow> seq2 \<Rightarrow> 'a ndarray" where
  "crop_image img crop_size =
     (let row_buffer = (int (rows img) - item0 crop_size) div 2;
          col_buffer = (int (cols img) - item1 crop_size) div 2;
          (r0, rl) = py_slice row_buffer (int (rows img) - row_buffer) (rows img);
          (c0, cl) = py_slice col_buffer (int (cols img) - col_buffer) (cols img)
      in \<lparr>rows = rl, cols = cl, chans = chans img,
          px = (\<lambda>r c k. px img (r0 + r) (c0 + c) k)\<rparr>)"

subsection \<open>Batch processing (\<^verbatim>\<open>process_images\<close>)\<close>

text \<open>
  \<^verbatim>\<open>cv2.imread\<close> is a parameter: it gives the decoded image of a path, or \<open>None\<close> for a
  file it cannot read. \<^verbatim>\<open>cv2.cvtColor(img, cv2.COLOR_BGR2RGB)\<close> raises \<^verbatim>\<open>cv2.error\<close> on
  \<open>None\<close>, on an empty image and on an image that has neither three nor four channels;
  otherwise it returns the three colour channels in reverse order.
\<close>

definition cvtColor_BGR2RGB :: "8 word ndarray option \<Rightarrow> exn + 8 word ndarray" where
  "cvtColor_BGR2RGB src =
     (case src of
        None \<Rightarrow> Inl CvError
      | Some img \<Rightarrow>
          if rows img = 0 \<or> cols img = 0 then Inl CvError
          else if chans img = 3 \<or> chans img = 4
          then Inr \<lparr>rows = rows img, cols = cols img, chans = 3,
                 px = (\<lambda>r c k. px img r c (2 - k))\<rparr>
          else Inl CvError)"

text \<open>
  Lines 96 and 97: the resize with centring followed by the crop, which the
  specification calls \<^verbatim>\<open>normalize\<close>.
\<close>

definition normalize ::
  "interpolation \<Rightarrow> 8 word ndarray \<Rightarrow> seq2 \<Rightarrow> seq2 \<Rightarrow> exn + 8 word ndarray" where
  "normalize interp img resize_new_size crop_size =
     (case resize_image_to_square interp img resize_new_size of
        Inl e \<Rightarrow> Inl e
      | Inr sq \<Rightarrow> Inr (crop_image sq crop_size))"

text \<open>The body of the loop, lines 94 to 97, up to the image that is appended.\<close>

definition process_one ::
  "(string \<Rightarrow> 8 word ndarray option) \<Rightarrow> interpolation \<Rightarrow> seq2 \<Rightarrow> seq2 \<Rightarrow> string
     \<Rightarrow> exn + 8 word ndarray" where
  "process_one imread interp resize_new_size crop_size file_path =
     (case cvtColor_BGR2RGB (imread file_path) of
        Inl e \<Rightarrow> Inl e
      | Inr img \<Rightarrow> normalize interp img resize_new_size crop_size)"

fun process_loop ::
  "(string \<Rightarrow> 8 word ndarray option) \<Rightarrow> interpolation \<Rightarrow> seq2 \<Rightarrow> seq2 \<Rightarrow> string list
     \<Rightarrow> 8 word ndarray list \<Rightarrow> exn + 8 word ndarray list" where
  "process_loop imread interp resize_new_size crop_size [] x = Inr x"
| "process_loop imread interp resize_new_size crop_size (file_path # rest) x =
     (case process_one imread interp resize_new_size crop_size file_path of
        Inl e \<Rightarrow> Inl e
      | Inr img \<Rightarrow> process_loop imread interp resize_new_size crop_size rest (x @ [img]))"

text \<open>
  \<^verbatim>\<open>np.array(x)\<close> stacks a list of arrays of one shape along a new first axis; the
  stacked array is kept as the list of its images. On arrays of different shapes numpy
  raises \<open>ValueError\<close>.
\<close>

definition np_array :: "'a ndarray list \<Rightarrow> exn + 'a ndarray list" where
  "np_array x = (if \<forall>a\<in>set x. shape a = shape (hd x) then Inr x else Inl ValueError)"

definition process_images ::
  "(string \<Rightarrow> 8 word ndarray option) \<Rightarrow> interpolation \<Rightarrow> string list \<Rightarrow> seq2 \<Rightarrow> seq2
     \<Rightarrow> exn + 8 word ndarray list" where
  "process_images imread interp file_paths resize_new_size crop_size =
     (case process_loop imread interp resize_new_size crop_size file_paths [] of
        Inl e \<Rightarrow> Inl e
      | Inr x \<Rightarrow> np_array x)"

subsection \<open>Splitting (\<^verbatim>\<open>train_validation_split\<close>)\<close>

text \<open>
  The archive that line 161 writes: the stack of \<^verbatim>\<open>uint8\<close> images under the first name
  and the array of label strings under the second. (On an archive with fewer than two
  arrays lines 110 to 113 raise; the record leaves such archives out.)
\<close>

record npz =
  arr_0 :: "8 word ndarray list"
  arr_1 :: "string list"

text \<open>
  \<^verbatim>\<open>LabelEncoder().fit_transform(y)\<close> from scikit-learn: the classes are the distinct
  labels in sorted order, and every label is replaced by its position among them.
\<close>

definition classes_of :: "string list \<Rightarrow> string list" where
  "classes_of y = sort (remdups y)"

fun index_of :: "'a list \<Rightarrow> 'a \<Rightarrow> nat" where
  "index_of [] v = 0"
| "index_of (x # xs) v = (if x = v then 0 else Suc (index_of xs v))"

definition fit_transform :: "string list \<Rightarrow> int list" where
  "fit_transform y = map (\<lambda>v. int (index_of (classes_of y) v)) y"

text \<open>
  \<^verbatim>\<open>train_test_split(x, y)\<close> from scikit-learn with its defaults: a quarter of the
  samples, rounded up, is held out. The random generator is the parameter
  \<open>permutation\<close>, which gives the shuffled index range for a number of samples; the
  first \<open>n_test\<close> indices select the test part and the following \<open>n_train\<close> the train
  part, of every array alike. Arrays of different lengths and an empty train part
  raise \<open>ValueError\<close>.
\<close>

definition train_test_split ::
  "(nat \<Rightarrow> nat list) \<Rightarrow> 'a list \<Rightarrow> 'b list \<Rightarrow> exn + ('a list \<times> 'a list \<times> 'b list \<times> 'b list)" where
  "train_test_split permutation x y =
     (if length x \<noteq> length y then Inl ValueError
      else
        let n_samples = length x;
            n_test = (n_samples + 3) div 4;
            n_train = n_samples - n_test
        in if n_train = 0 then Inl ValueError
           else
             let ind_test = take n_test (permutation n_samples);
                 ind_train = take n_train (drop n_test (permutation n_samples))
             in Inr (map (\<lambda>i. x ! i) ind_train, map (\<lambda>i. x ! i) ind_test,
                     map (\<lambda>i. y ! i) ind_train, map (\<lambda>i. y ! i) ind_test))"

text \<open>An elementwise operation on an array.\<close>

definition map_px :: "('a \<Rightarrow> 'b) \<Rightarrow> 'a ndarray \<Rightarrow> 'b ndarray" where
  "map_px f a = \<lparr>rows = rows a, cols = cols a, chans = chans a,
                 px = (\<lambda>r c k. f (px a r c k))\<rparr>"

text \<open>
  \<^verbatim>\<open>train_validation_split\<close>. The element type \<open>'f\<close> stands for \<^verbatim>\<open>float32\<close>; the
  conversion \<^verbatim>\<open>astype('float32')\<close> of one element and the division of one element by an
  integer are the parameters \<open>astype_float32\<close> and \<open>truediv\<close>. The \<^verbatim>\<open>print\<close> of line 119
  has no effect on the result.
\<close>

definition train_validation_split ::
  "(nat \<Rightarrow> nat list) \<Rightarrow> (8 word \<Rightarrow> 'f) \<Rightarrow> ('f \<Rightarrow> int \<Rightarrow> 'f) \<Rightarrow> npz
     \<Rightarrow> exn + ('f ndarray list \<times> 'f ndarray list \<times> int list \<times> int list)" where
  "train_validation_split permutation astype_float32 truediv data =
     (let x = arr_0 data;
          y = arr_1 data;
          y = fit_transform y
      in case train_test_split permutation x y of
           Inl e \<Rightarrow> Inl e
         | Inr (X_train, X_test, y_train, y_test) \<Rightarrow>
             let X_train = map (map_px astype_float32) X_train;
                 X_test = map (map_px astype_float32) X_test;
                 X_train = map (map_px (\<lambda>v. truediv v 255)) X_train;
                 X_test = map (map_px (\<lambda>v. truediv v 255)) X_test
             in Inr (X_train, X_test, y_train, y_test))"

subsection \<open>Single precision\<close>

text \<open>
  A finite \<^verbatim>\<open>float32\<close> value is the rational number it denotes. An operation gives the
  exact result rounded to the nearest value with a significand of 24 bits, ties to the
  even significand (IEEE 754 binary32; the results here are at most 1, far from
  overflow).
\<close>

definition round_half_even :: "rat \<Rightarrow> int" where
  "round_half_even x =
     (let f = \<lfloor>x\<rfloor>; d = x - of_int f
      in if d < 1 / 2 then f
         else if 1 / 2 < d then f + 1
         else if even f then f else f + 1)"

text \<open>The binary exponent of a positive rational: \<open>2 ^ e \<le> q < 2 ^ (e + 1)\<close>.\<close>

definition binade :: "rat \<Rightarrow> int" where
  "binade q = (if 1 \<le> q then bitlen \<lfloor>q\<rfloor> - 1 else - bitlen (\<lceil>1 / q\<rceil> - 1))"

definition f32_round :: "rat \<Rightarrow> rat" where
  "f32_round q =
     (if q = 0 then 0
      else
        let e = max (binade \<bar>q\<bar>) (- 126);
            ulp = 2 powi (e - 23)
        in of_int (round_half_even (q / ulp)) * ulp)"

text \<open>Every \<^verbatim>\<open>uint8\<close> value is a \<^verbatim>\<open>float32\<close> value.\<close>

definition f32_of_uint8 :: "8 word \<Rightarrow> rat" where
  "f32_of_uint8 v = of_nat (unat v)"

text \<open>
  \<^verbatim>\<open>a / d\<close> for a \<^verbatim>\<open>float32\<close> element and a Python integer: numpy converts the integer to
  \<^verbatim>\<open>float32\<close> and divides in single precision.
\<close>

definition f32_truediv :: "rat \<Rightarrow> int \<Rightarrow> rat" where
  "f32_truediv a d = f32_round (a / f32_round (of_int d))"

subsection \<open>One-hot encoding (\<^verbatim>\<open>convert_to_binary_class_matrices\<close>)\<close>

text \<open>
  \<^verbatim>\<open>np_utils.to_categorical(y, num_classes)\<close> from Keras, on a vector of integers:
  \<^verbatim>\<open>
    if not num_classes: num_classes = np.max(y) + 1
    n = y.shape[0]
    categorical = np.zeros((n, num_classes))
    categorical[np.arange(n), y] = 1
  \<close>
  \<^verbatim>\<open>np.max\<close> of an empty vector and a negative dimension raise \<open>ValueError\<close>. The indexed
  assignment raises \<open>IndexError\<close> for a label outside \<open>- num_classes .. num_classes - 1\<close>,
  and reads a negative label inside that range from the end of the row. The entries
  \<^verbatim>\<open>0.0\<close> and \<^verbatim>\<open>1.0\<close> are written 0 and 1.
\<close>

definition to_categorical :: "int list \<Rightarrow> int \<Rightarrow> exn + int list list" where
  "to_categorical y num_classes =
     (if num_classes = 0 \<and> y = [] then Inl ValueError
      else
        let num_classes = (if num_classes = 0 then Max (set y) + 1 else num_classes)
        in if num_classes < 0 then Inl ValueError
           else if \<exists>v\<in>set y. v < - num_classes \<or> num_classes \<le> v then Inl IndexError
           else Inr (map (\<lambda>v. map (\<lambda>k. if int k = (if v < 0 then v + num_classes else v)
                                       then 1 else 0)
                                 [0..<nat num_classes]) y))"

definition convert_to_binary_class_matrices ::
  "int list \<Rightarrow> int list \<Rightarrow> int \<Rightarrow> exn + (int list list \<times> int list list)" where
  "convert_to_binary_class_matrices y_train y_test nb_classes =
     (case to_categorical y_train nb_classes of
        Inl e \<Rightarrow> Inl e
      | Inr Y_train \<Rightarrow>
          (case to_categorical y_test nb_classes of
             Inl e \<Rightarrow> Inl e
           | Inr Y_test \<Rightarrow> Inr (Y_train, Y_test)))"

section \<open>Properties of the label extractor\<close>

lemma re_sub_digits_filter: "re_sub_digits s = filter (\<lambda>c. \<not> is_digit c) s"
proof (induction s rule: re_sub_digits.induct)
  case 1
  show ?case by simp
next
  case (2 c cs)
  show ?case
  proof (cases "is_digit c")
    case True
    have "filter (\<lambda>c. \<not> is_digit c) (dropWhile is_digit cs) = filter (\<lambda>c. \<not> is_digit c) cs"
      by (induction cs) auto
    with True 2 show ?thesis by simp
  next
    case False
    with 2 show ?thesis by simp
  qed
qed

lemma rstrip_end_le: "rstrip_end s chars j \<le> j"
  by (induction j) auto

lemma take_rstrip_end:
  "j \<le> length s \<Longrightarrow>
   take (rstrip_end s chars j) s = rev (dropWhile (\<lambda>c. c \<in> set chars) (rev (take j s)))"
proof (induction j)
  case 0
  show ?case by simp
next
  case (Suc j)
  then have j: "j < length s" by simp
  have split: "take (Suc j) s = take j s @ [s ! j]"
    using j by (simp add: take_Suc_conv_app_nth)
  show ?case
  proof (cases "s ! j \<in> set chars")
    case True
    with Suc split show ?thesis by simp
  next
    case False
    with split show ?thesis by simp
  qed
qed

lemma rstrip_dropWhile: "rstrip s chars = rev (dropWhile (\<lambda>c. c \<in> set chars) (rev s))"
  using take_rstrip_end [of "length s" s chars] by (simp add: rstrip_def)

lemma img_cat_spec_label: "img_cat name = spec_label name"
proof -
  have "set ''_.jpg'' = {CHR ''_'', CHR ''.'', CHR ''j'', CHR ''p'', CHR ''g''}"
    by auto
  then show ?thesis
    by (simp only: img_cat_def spec_label_def rstrip_dropWhile re_sub_digits_filter)
qed

lemma spec_label_suffix:
  assumes "\<forall>d\<in>set ds. is_digit d"
  shows "spec_label (nm @ ds @ ''_.jpg'') = spec_label nm"
proof -
  let ?P = "\<lambda>c. c \<in> {CHR ''_'', CHR ''.'', CHR ''j'', CHR ''p'', CHR ''g''}"
  have ds: "filter (\<lambda>c. \<not> is_digit c) ds = []"
    using assms by (simp add: filter_empty_conv)
  have sfx: "filter (\<lambda>c. \<not> is_digit c) ''_.jpg'' = ''_.jpg''"
    by (simp add: is_digit_def)
  have "rev (filter (\<lambda>c. \<not> is_digit c) (nm @ ds @ ''_.jpg''))
          = rev ''_.jpg'' @ rev (filter (\<lambda>c. \<not> is_digit c) nm)"
    by (simp only: filter_append ds sfx rev_append append_Nil)
  moreover have "dropWhile ?P (rev ''_.jpg'' @ rev (filter (\<lambda>c. \<not> is_digit c) nm))
          = dropWhile ?P (rev (filter (\<lambda>c. \<not> is_digit c) nm))"
    by (rule dropWhile_append2) auto
  ultimately show ?thesis
    by (simp only: spec_label_def)
qed

text \<open>
  Claim C4. For every file name the extracted label is the name with every decimal digit
  removed and then all trailing characters of the class \<^verbatim>\<open>{_ . j p g}\<close> stripped from the
  right end. The stripping is by character class, not by the literal suffix: the name
  \<^verbatim>\<open>fig12_.jpg\<close> gives \<^verbatim>\<open>fi\<close>. For a name of the form name, digits, \<^verbatim>\<open>_.jpg\<close> the label is
  the name part treated the same way, so a name part without digits only loses its own
  trailing characters of that class.
\<close>

theorem img_cat_rstrip_class:
  "img_cat name = spec_label name
   \<and> img_cat ''fig12_.jpg'' = ''fi''
   \<and> (\<forall>nm ds. (\<forall>d\<in>set ds. is_digit d) \<longrightarrow>
         img_cat (nm @ ds @ ''_.jpg'') = spec_label nm
         \<and> ((\<forall>c\<in>set nm. \<not> is_digit c) \<longrightarrow>
              img_cat (nm @ ds @ ''_.jpg'')
                = rev (dropWhile (\<lambda>c. c \<in> {CHR ''_'', CHR ''.'', CHR ''j'', CHR ''p'', CHR ''g''})
                        (rev nm))))"
proof (intro conjI allI impI)
  show "img_cat name = spec_label name"
    by (rule img_cat_spec_label)
  show "img_cat ''fig12_.jpg'' = ''fi''"
    by (simp add: img_cat_spec_label spec_label_def is_digit_def)
next
  fix nm ds :: string
  assume ds: "\<forall>d\<in>set ds. is_digit d"
  show eq: "img_cat (nm @ ds @ ''_.jpg'') = spec_label nm"
    using spec_label_suffix [OF ds] by (simp only: img_cat_spec_label)
  assume "\<forall>c\<in>set nm. \<not> is_digit c"
  then have "filter (\<lambda>c. \<not> is_digit c) nm = nm"
    by (simp add: filter_id_conv)
  then show "img_cat (nm @ ds @ ''_.jpg'')
      = rev (dropWhile (\<lambda>c. c \<in> {CHR ''_'', CHR ''.'', CHR ''j'', CHR ''p'', CHR ''g''}) (rev nm))"
    by (simp only: eq spec_label_def)
qed

theorem img_cat_rstrip_class_witness:
  "img_cat ''rose_17_.jpg'' = ''rose''"
proof -
  have ds: "\<forall>d\<in>set ''17''. is_digit d"
    by (simp add: is_digit_def)
  have nm: "\<forall>c\<in>set ''rose_''. \<not> is_digit c"
    by (simp add: is_digit_def)
  from img_cat_rstrip_class [of "''rose_''"] ds nm
  have "img_cat (''rose_'' @ ''17'' @ ''_.jpg'')
      = rev (dropWhile (\<lambda>c. c \<in> {CHR ''_'', CHR ''.'', CHR ''j'', CHR ''p'', CHR ''g''})
          (rev ''rose_''))"
    by blast
  then show ?thesis by simp
qed

lemma categories_loop_lookup:
  "categories_loop img_root files d (img_root @ name)
     = (if name \<in> set files \<and> \<not> startswith name ''.'' then Some (img_cat name)
        else d (img_root @ name))"
  by (induction files arbitrary: d) auto

lemma spec_label_nonempty:
  "spec_label name \<noteq> [] \<longleftrightarrow> (\<exists>c\<in>set name. \<not> is_digit c \<and> c \<notin> set ''_.jpg'')"
  by (auto simp: spec_label_def)

text \<open>
  Claim C8, as stated: every file name that does not start with a period gets a
  non-empty label. The name \<^verbatim>\<open>12_.jpg\<close> is not hidden and its label is the empty string.
\<close>

theorem label_nonempty_counterexample:
  "\<not> startswith ''12_.jpg'' ''.''
   \<and> (case image_categories (\<lambda>d. Inr [''12_.jpg'']) (\<lambda>p. True) ''imgs/'' of
        Inl e \<Rightarrow> None
      | Inr flower_dict \<Rightarrow> flower_dict ''imgs/12_.jpg'') = Some []"
  by (simp add: image_categories_def startswith_def img_cat_spec_label spec_label_def
      is_digit_def)

text \<open>
  Claim C8, amended. For every listed regular file whose name does not start with a
  period, the dictionary maps the path (root and name concatenated) to a label that
  depends on the name alone, neither on the root nor on the other files. The label is
  non-empty exactly when the name holds a character that is neither a digit nor one of
  \<^verbatim>\<open>_ . j p g\<close>.
\<close>

theorem label_function_of_name:
  assumes "listdir img_root = Inr names"
    and "name \<in> set names"
    and "isfile (join img_root name)"
    and "\<not> startswith name ''.''"
  shows "\<exists>flower_dict. image_categories listdir isfile img_root = Inr flower_dict
           \<and> flower_dict (img_root @ name) = Some (img_cat name)
           \<and> (img_cat name \<noteq> [] \<longleftrightarrow> (\<exists>c\<in>set name. \<not> is_digit c \<and> c \<notin> set ''_.jpg''))"
proof -
  have "name \<in> set [f \<leftarrow> names. isfile (join img_root f)]"
    using assms(2,3) by simp
  then have "categories_loop img_root [f \<leftarrow> names. isfile (join img_root f)] Map.empty
               (img_root @ name) = Some (img_cat name)"
    using assms(4) by (simp only: categories_loop_lookup if_True simp_thms)
  moreover have "img_cat name \<noteq> [] \<longleftrightarrow> (\<exists>c\<in>set name. \<not> is_digit c \<and> c \<notin> set ''_.jpg'')"
    by (simp only: img_cat_spec_label spec_label_nonempty)
  ultimately show ?thesis
    using assms(1) by (simp add: image_categories_def)
qed

theorem label_function_of_name_witness:
  "\<exists>flower_dict.
     image_categories (\<lambda>d. Inr [''.DS_Store'', ''lily3_.jpg'']) (\<lambda>p. True) ''imgs/''
       = Inr flower_dict
     \<and> flower_dict ''imgs/lily3_.jpg'' = Some ''lily''"
proof -
  have a: "(\<lambda>d. Inr [''.DS_Store'', ''lily3_.jpg'']) ''imgs/''
             = (Inr [''.DS_Store'', ''lily3_.jpg''] :: exn + string list)"
    by simp
  have b: "''lily3_.jpg'' \<in> set [''.DS_Store'', ''lily3_.jpg'']"
    by simp
  have c: "(\<lambda>p. True) (join ''imgs/'' ''lily3_.jpg'')"
    by simp
  have d: "\<not> startswith ''lily3_.jpg'' ''.''"
    by (simp add: startswith_def)
  have e: "img_cat ''lily3_.jpg'' = ''lily''"
    by (simp add: img_cat_spec_label spec_label_def is_digit_def)
  from label_function_of_name [of "\<lambda>d. Inr [''.DS_Store'', ''lily3_.jpg'']" "''imgs/''", OF a b c d]
  obtain flower_dict where
    "image_categories (\<lambda>d. Inr [''.DS_Store'', ''lily3_.jpg'']) (\<lambda>p. True) ''imgs/''
       = Inr flower_dict"
    and "flower_dict (''imgs/'' @ ''lily3_.jpg'') = Some (img_cat ''lily3_.jpg'')"
    by blast
  then show ?thesis by (simp add: e)
qed

section \<open>Properties of the geometry\<close>

lemma py_slice_inside:
  "0 \<le> a \<Longrightarrow> a \<le> b \<Longrightarrow> b \<le> int n \<Longrightarrow> py_slice a b n = (nat a, nat (b - a))"
  by (auto simp: py_slice_def slice_bound_def Let_def)

lemma py_slice_len_le: "snd (py_slice a b n) \<le> n"
  by (auto simp: py_slice_def slice_bound_def Let_def)

lemma py_slice_within: "fst (py_slice a b n) + snd (py_slice a b n) \<le> n"
  by (auto simp: py_slice_def slice_bound_def Let_def)

lemma center_axis_fits:
  assumes "broadcasts m (snd (py_slice b (b + int m) (nat h)))" and "r < nat h"
  shows "int m \<le> h"
proof (rule ccontr)
  assume "\<not> int m \<le> h"
  then have lt: "nat h < m" using assms(2) by linarith
  have "snd (py_slice b (b + int m) (nat h)) \<le> nat h"
    by (rule py_slice_len_le)
  with lt assms(1) have "m = 1"
    by (auto simp: broadcasts_def)
  with lt assms(2) show False by simp
qed

lemma center_axis_slice:
  assumes "int m \<le> h"
  shows "py_slice ((h - int m) div 2) ((h - int m) div 2 + int m) (nat h)
           = (nat ((h - int m) div 2), m)"
proof -
  have "0 \<le> (h - int m) div 2" using assms by simp
  moreover have "(h - int m) div 2 + int m \<le> int (nat h)" using assms by simp
  ultimately show ?thesis
    by (simp add: py_slice_inside)
qed

lemma center_image_pixel:
  assumes ok: "center_image img new_size = Inr centered"
    and r: "r < rows centered" and c: "c < cols centered"
  shows "px centered r c k =
     (if (item0 new_size - int (rows img)) div 2 \<le> int r
         \<and> int r < (item0 new_size - int (rows img)) div 2 + int (rows img)
         \<and> (item1 new_size - int (cols img)) div 2 \<le> int c
         \<and> int c < (item1 new_size - int (cols img)) div 2 + int (cols img)
      then px img (nat (int r - (item0 new_size - int (rows img)) div 2))
                  (nat (int c - (item1 new_size - int (cols img)) div 2)) k
      else 0)"
proof (cases new_size)
  case (PyTuple h w)
  with ok show ?thesis by (simp add: center_image_def Let_def)
next
  case (PyList h w)
  define rb where "rb = (h - int (rows img)) div 2"
  define cb where "cb = (w - int (cols img)) div 2"
  obtain r0 rl where rs: "py_slice rb (rb + int (rows img)) (nat h) = (r0, rl)"
    by (cases "py_slice rb (rb + int (rows img)) (nat h)")
  obtain c0 cl where cs: "py_slice cb (cb + int (cols img)) (nat w) = (c0, cl)"
    by (cases "py_slice cb (cb + int (cols img)) (nat w)")
  from ok PyList rs cs have nonneg: "0 \<le> h" "0 \<le> w"
    and bc: "broadcasts (rows img) rl" "broadcasts (cols img) cl"
    and cen: "centered = \<lparr>rows = nat h, cols = nat w, chans = chans img,
        px = (\<lambda>r c k. if r0 \<le> r \<and> r < r0 + rl \<and> c0 \<le> c \<and> c < c0 + cl
                  then px img (if rows img = 1 then 0 else r - r0)
                              (if cols img = 1 then 0 else c - c0) k
                  else 0)\<rparr>"
    by (auto simp: center_image_def Let_def rb_def cb_def split: if_splits)
  from r c cen have r': "r < nat h" and c': "c < nat w" by simp_all
  have fr: "int (rows img) \<le> h"
    using bc(1) rs r' center_axis_fits [of "rows img" rb h r] by simp
  have fc: "int (cols img) \<le> w"
    using bc(2) cs c' center_axis_fits [of "cols img" cb w c] by simp
  have r0: "r0 = nat rb" "rl = rows img"
    using center_axis_slice [OF fr] rs unfolding rb_def by auto
  have c0: "c0 = nat cb" "cl = cols img"
    using center_axis_slice [OF fc] cs unfolding cb_def by auto
  have rb0: "0 \<le> rb" using fr by (simp add: rb_def)
  have cb0: "0 \<le> cb" using fc by (simp add: cb_def)
  have "px centered r c k =
     (if rb \<le> int r \<and> int r < rb + int (rows img) \<and> cb \<le> int c \<and> int c < cb + int (cols img)
      then px img (nat (int r - rb)) (nat (int c - cb)) k else 0)"
    using rb0 cb0 by (auto simp: cen r0 c0 nat_diff_distrib' nat_le_iff nat_less_iff)
  then show ?thesis
    by (simp add: PyList rb_def cb_def)
qed

lemma crop_image_region:
  "\<exists>r0 c0. r0 + rows (crop_image a crop_size) \<le> rows a
      \<and> c0 + cols (crop_image a crop_size) \<le> cols a
      \<and> chans (crop_image a crop_size) = chans a
      \<and> (\<forall>r c k. px (crop_image a crop_size) r c k = px a (r0 + r) (c0 + c) k)"
proof -
  define rb where "rb = (int (rows a) - item0 crop_size) div 2"
  define cb where "cb = (int (cols a) - item1 crop_size) div 2"
  obtain r0 rl where rs: "py_slice rb (int (rows a) - rb) (rows a) = (r0, rl)"
    by (cases "py_slice rb (int (rows a) - rb) (rows a)")
  obtain c0 cl where cs: "py_slice cb (int (cols a) - cb) (cols a) = (c0, cl)"
    by (cases "py_slice cb (int (cols a) - cb) (cols a)")
  have crop: "crop_image a crop_size
      = \<lparr>rows = rl, cols = cl, chans = chans a, px = (\<lambda>r c k. px a (r0 + r) (c0 + c) k)\<rparr>"
    using rs cs by (simp add: crop_image_def Let_def rb_def cb_def)
  have "r0 + rl \<le> rows a"
    using py_slice_within [of rb "int (rows a) - rb" "rows a"] rs by simp
  moreover have "c0 + cl \<le> cols a"
    using py_slice_within [of cb "int (cols a) - cb" "cols a"] cs by simp
  ultimately show ?thesis
    by (intro exI [of _ r0] exI [of _ c0]) (simp add: crop)
qed

text \<open>
  Claim C10. Padding and cropping never invent or alter pixel values. Every pixel of
  the canvas that \<^verbatim>\<open>_center_image\<close> returns is the pixel of the input tile shifted by the
  two buffers when it lies inside the tile rectangle, and 0 outside it. The image that
  \<^verbatim>\<open>crop_image\<close> returns is a rectangle inside its input, offset by some \<open>(r0, c0)\<close>,
  with the pixel values of the input.
\<close>

theorem pad_and_crop_keep_pixels:
  "(center_image img new_size = Inr centered \<longrightarrow>
      (\<forall>r c k. r < rows centered \<and> c < cols centered \<longrightarrow>
         px centered r c k =
           (if (item0 new_size - int (rows img)) div 2 \<le> int r
               \<and> int r < (item0 new_size - int (rows img)) div 2 + int (rows img)
               \<and> (item1 new_size - int (cols img)) div 2 \<le> int c
               \<and> int c < (item1 new_size - int (cols img)) div 2 + int (cols img)
            then px img (nat (int r - (item0 new_size - int (rows img)) div 2))
                        (nat (int c - (item1 new_size - int (cols img)) div 2)) k
            else 0)))
   \<and> (\<exists>r0 c0. r0 + rows (crop_image a crop_size) \<le> rows a
         \<and> c0 + cols (crop_image a crop_size) \<le> cols a
         \<and> chans (crop_image a crop_size) = chans a
         \<and> (\<forall>r c k. px (crop_image a crop_size) r c k = px a (r0 + r) (c0 + c) k))"
  using center_image_pixel [of img new_size centered] crop_image_region [of a crop_size]
  by blast

theorem pad_and_crop_keep_pixels_witness:
  "(let tile = \<lparr>rows = 1, cols = 2, chans = 3, px = (\<lambda>r c k. 7 + of_nat c)\<rparr>;
        centered = \<lparr>rows = 3, cols = 4, chans = 3,
                     px = (\<lambda>r c k. if r = 1 \<and> 1 \<le> c \<and> c < 3 then 7 + of_nat (c - 1) else 0)\<rparr>
    in center_image tile (PyList 3 4) = Inr centered
       \<and> px centered 1 2 0 = px tile 0 1 0 \<and> px centered 0 2 0 = 0)"
proof -
  define tile :: "8 word ndarray"
    where "tile = \<lparr>rows = 1, cols = 2, chans = 3, px = (\<lambda>r c k. 7 + of_nat c)\<rparr>"
  define centered :: "8 word ndarray"
    where "centered = \<lparr>rows = 3, cols = 4, chans = 3,
             px = (\<lambda>r c k. if r = 1 \<and> 1 \<le> c \<and> c < 3 then 7 + of_nat (c - 1) else 0)\<rparr>"
  have ok: "center_image tile (PyList 3 4) = Inr centered"
    by (auto simp: center_image_def tile_def centered_def py_slice_def slice_bound_def
        broadcasts_def Let_def fun_eq_iff)
  from pad_and_crop_keep_pixels [of tile "PyList 3 4" centered] ok
  have "\<forall>r c k. r < rows centered \<and> c < cols centered \<longrightarrow>
         px centered r c k =
           (if (item0 (PyList 3 4) - int (rows tile)) div 2 \<le> int r
               \<and> int r < (item0 (PyList 3 4) - int (rows tile)) div 2 + int (rows tile)
               \<and> (item1 (PyList 3 4) - int (cols tile)) div 2 \<le> int c
               \<and> int c < (item1 (PyList 3 4) - int (cols tile)) div 2 + int (cols tile)
            then px tile (nat (int r - (item0 (PyList 3 4) - int (rows tile)) div 2))
                        (nat (int c - (item1 (PyList 3 4) - int (cols tile)) div 2)) k
            else 0)"
    by blast
  then have "px centered 1 2 0 = px tile 0 1 0 \<and> px centered 0 2 0 = 0"
    by (simp add: tile_def centered_def)
  with ok show ?thesis
    by (simp add: tile_def centered_def Let_def)
qed

lemma int_truediv_nonneg: "0 \<le> a \<Longrightarrow> 0 < b \<Longrightarrow> int_truediv a b = a div b"
  by (simp add: int_truediv_def)

lemma int_truediv_nonpos: "a \<le> 0 \<Longrightarrow> 0 < b \<Longrightarrow> int_truediv a b \<le> 0"
  by (auto simp: int_truediv_def pos_imp_zdiv_nonneg_iff)

lemma scaled_le:
  assumes "a \<le> b" and "0 < b" and "0 \<le> S"
  shows "(int a * S) div int b \<le> S"
proof -
  have "int a * S \<le> int b * S"
    using assms(1,3) by (simp add: mult_right_mono)
  then have "(int a * S) div int b \<le> (int b * S) div int b"
    using assms(2) by (intro zdiv_mono1) simp_all
  moreover have "(int b * S) div int b = S"
    using assms(2) by simp
  ultimately show ?thesis by simp
qed

lemma scaled_pos_iff:
  assumes "0 < b" and "0 \<le> S"
  shows "1 \<le> (int a * S) div int b \<longleftrightarrow> int b \<le> S * int a"
proof -
  have "0 < (int a * S) div int b \<longleftrightarrow> int b \<le> int a * S"
    using assms(1) by (intro pos_imp_zdiv_pos_iff) simp
  moreover have "1 \<le> (int a * S) div int b \<longleftrightarrow> 0 < (int a * S) div int b"
    by linarith
  ultimately show ?thesis by (simp add: mult.commute)
qed

lemma tile_size_tall:
  assumes "cols img < rows img" and "0 \<le> item1 new_size"
  shows "tile_size img new_size
           = Inr ((int (cols img) * item1 new_size) div int (rows img), item1 new_size)"
  using assms by (simp add: tile_size_def int_truediv_nonneg)

lemma tile_size_wide:
  assumes "rows img \<le> cols img" and "0 < cols img" and "0 \<le> item1 new_size"
  shows "tile_size img new_size
           = Inr (item1 new_size, (int (rows img) * item1 new_size) div int (cols img))"
  using assms by (simp add: tile_size_def int_truediv_nonneg)

lemma resized_tile_ok:
  assumes pos: "0 < rows img" "0 < cols img"
    and fit: "int (max (rows img) (cols img)) \<le> item1 new_size * int (min (rows img) (cols img))"
  shows "\<exists>tile. resized_tile interp img new_size = Inr tile \<and> chans tile = chans img
           \<and> (cols img < rows img \<longrightarrow> int (rows tile) = item1 new_size
                 \<and> int (cols tile) = (int (cols img) * item1 new_size) div int (rows img))
           \<and> (rows img \<le> cols img \<longrightarrow> int (cols tile) = item1 new_size
                 \<and> int (rows tile) = (int (rows img) * item1 new_size) div int (cols img))
           \<and> 1 \<le> int (rows tile) \<and> 1 \<le> int (cols tile)
           \<and> int (rows tile) \<le> item1 new_size \<and> int (cols tile) \<le> item1 new_size"
proof -
  define S where "S = item1 new_size"
  have S1: "1 \<le> S"
  proof (rule ccontr)
    assume "\<not> 1 \<le> S"
    then have "S \<le> 0" by simp
    then have "S * int (min (rows img) (cols img)) \<le> 0"
      by (simp add: mult_le_0_iff)
    with fit pos show False by (simp add: S_def)
  qed
  show ?thesis
  proof (cases "cols img < rows img")
    case True
    define tw where "tw = (int (cols img) * S) div int (rows img)"
    have ts: "tile_size img new_size = Inr (tw, S)"
      using tile_size_tall [of img new_size] True S1 by (simp add: S_def tw_def)
    have "int (rows img) \<le> S * int (cols img)"
      using fit True by (simp add: S_def max_def min_def)
    then have tw1: "1 \<le> tw"
      using scaled_pos_iff [of "rows img" S "cols img"] pos S1 by (simp add: tw_def)
    have tw2: "tw \<le> S"
      using scaled_le [of "cols img" "rows img" S] True pos S1 by (simp add: tw_def)
    have "resized_tile interp img new_size
        = Inr \<lparr>rows = nat S, cols = nat tw, chans = chans img, px = interp img (nat tw) (nat S),
               ndim = (if chans img = 1 then 2 else 3)\<rparr>"
      using ts tw1 S1 pos by (simp add: resized_tile_def cv2_resize_def)
    moreover have "int (nat S) = S" "int (nat tw) = tw"
      using S1 tw1 by simp_all
    ultimately show ?thesis
      using True tw1 tw2 S1 unfolding S_def tw_def by auto
  next
    case False
    define th where "th = (int (rows img) * S) div int (cols img)"
    have ts: "tile_size img new_size = Inr (S, th)"
      using tile_size_wide [of img new_size] False pos S1 by (simp add: S_def th_def)
    have "int (cols img) \<le> S * int (rows img)"
      using fit False by (simp add: S_def max_def min_def)
    then have th1: "1 \<le> th"
      using scaled_pos_iff [of "cols img" S "rows img"] pos S1 by (simp add: th_def)
    have th2: "th \<le> S"
      using scaled_le [of "rows img" "cols img" S] False pos S1 by (simp add: th_def)
    have "resized_tile interp img new_size
        = Inr \<lparr>rows = nat th, cols = nat S, chans = chans img, px = interp img (nat S) (nat th),
               ndim = (if chans img = 1 then 2 else 3)\<rparr>"
      using ts th1 S1 pos by (simp add: resized_tile_def cv2_resize_def)
    moreover have "int (nat S) = S" "int (nat th) = th"
      using S1 th1 by simp_all
    ultimately show ?thesis
      using False th1 th2 S1 unfolding S_def th_def by auto
  qed
qed

lemma resized_tile_fails:
  assumes pos: "0 < rows img" "0 < cols img"
    and nofit: "\<not> int (max (rows img) (cols img)) \<le> item1 new_size * int (min (rows img) (cols img))"
  shows "resized_tile interp img new_size = Inl CvError"
proof -
  define S where "S = item1 new_size"
  show ?thesis
  proof (cases "cols img < rows img")
    case True
    then have ts: "tile_size img new_size
        = Inr (int_truediv (int (cols img) * S) (int (rows img)), S)"
      by (simp add: tile_size_def S_def)
    have "int_truediv (int (cols img) * S) (int (rows img)) \<le> 0 \<or> S \<le> 0"
    proof (cases "0 \<le> S")
      case True
      have "\<not> 1 \<le> (int (cols img) * S) div int (rows img)"
        using scaled_pos_iff [of "rows img" S "cols img"] pos \<open>0 \<le> S\<close> nofit \<open>cols img < rows img\<close>
        by (simp add: S_def max_def min_def)
      then show ?thesis
        using True pos by (simp add: int_truediv_nonneg)
    next
      case False
      then show ?thesis by simp
    qed
    then show ?thesis
      using ts pos by (auto simp: resized_tile_def cv2_resize_def)
  next
    case False
    then have ts: "tile_size img new_size
        = Inr (S, int_truediv (int (rows img) * S) (int (cols img)))"
      using pos by (simp add: tile_size_def S_def)
    have "S \<le> 0 \<or> int_truediv (int (rows img) * S) (int (cols img)) \<le> 0"
    proof (cases "0 \<le> S")
      case True
      have "\<not> 1 \<le> (int (rows img) * S) div int (cols img)"
        using scaled_pos_iff [of "cols img" S "rows img"] pos \<open>0 \<le> S\<close> nofit \<open>\<not> cols img < rows img\<close>
        by (simp add: S_def max_def min_def)
      then show ?thesis
        using True pos by (simp add: int_truediv_nonneg)
    next
      case False
      then show ?thesis by simp
    qed
    then show ?thesis
      using ts pos by (auto simp: resized_tile_def cv2_resize_def)
  qed
qed

lemma center_image_fit:
  assumes "int (rows t) \<le> h" and "int (cols t) \<le> w"
  shows "\<exists>sq. center_image t (PyList h w) = Inr sq \<and> shape sq = (nat h, nat w, chans t)"
proof -
  have "0 \<le> h" "0 \<le> w" using assms by linarith+
  then show ?thesis
    using center_axis_slice [OF assms(1)] center_axis_slice [OF assms(2)]
    by (simp add: center_image_def Let_def broadcasts_def shape_def)
qed

lemma resized_tile_ndim:
  "resized_tile interp img new_size = Inr t \<Longrightarrow> ndim t = (if chans img = 1 then 2 else 3)"
  by (auto simp: resized_tile_def cv2_resize_def split: sum.splits if_splits prod.splits)

lemma center_image_nd_fit:
  assumes "ndim t = 3" and "int (rows t) \<le> h" and "int (cols t) \<le> w"
  shows "\<exists>sq. center_image_nd t (PyList h w) = Inr sq \<and> shape sq = (nat h, nat w, chans t)"
  using center_image_fit [of "\<lparr>rows = rows t, cols = cols t, chans = chans t, px = px t\<rparr>" h w]
    assms
  by (simp add: center_image_nd_def)

lemma crop_axis:
  assumes "0 \<le> ch" and "ch \<le> int n"
  shows "py_slice ((int n - ch) div 2) (int n - (int n - ch) div 2) n
           = (nat ((int n - ch) div 2), nat (ch + (int n - ch) mod 2))"
proof -
  define b where "b = (int n - ch) div 2"
  have b0: "0 \<le> b" using assms by (simp add: b_def)
  have b2: "2 * b + (int n - ch) mod 2 = int n - ch"
    by (simp add: b_def)
  then have le: "b \<le> int n - b" using assms b0 by linarith
  have "py_slice b (int n - b) n = (nat b, nat (int n - b - b))"
    using b0 le by (intro py_slice_inside) simp_all
  moreover have "int n - b - b = ch + (int n - ch) mod 2"
    using b2 by linarith
  ultimately show ?thesis by (simp add: b_def)
qed

lemma crop_image_shape:
  assumes "0 \<le> item0 crop_size" "item0 crop_size \<le> int (rows a)"
    and "0 \<le> item1 crop_size" "item1 crop_size \<le> int (cols a)"
  shows "shape (crop_image a crop_size)
           = (nat (item0 crop_size + (int (rows a) - item0 crop_size) mod 2),
              nat (item1 crop_size + (int (cols a) - item1 crop_size) mod 2), chans a)"
  using crop_axis [OF assms(1,2)] crop_axis [OF assms(3,4)]
  by (simp add: crop_image_def Let_def shape_def)

text \<open>
  The default \<^verbatim>\<open>new_size=((256, 256))\<close> of \<^verbatim>\<open>resize_image_to_square\<close> is a tuple, unlike the
  list default of \<^verbatim>\<open>_center_image\<close>: once the tile is resized, the centring raises
  \<open>TypeError\<close>. The callers in the module pass lists.
\<close>

lemma resize_to_square_tuple:
  "resized_tile interp img (PyTuple h w) = Inr tile \<Longrightarrow> chans img \<noteq> 1 \<Longrightarrow>
   resize_image_to_square interp img (PyTuple h w) = Inl TypeError"
  using resized_tile_ndim [of interp img "PyTuple h w" tile]
  by (simp add: resize_image_to_square_def center_image_nd_def center_image_def Let_def)

text \<open>
  An image of one channel is resized to an array of two axes, which has no
  \<^verbatim>\<open>shape[2]\<close>: whenever the resize returns, the centring raises \<open>IndexError\<close>.
\<close>

lemma resize_to_square_one_channel:
  "resized_tile interp img new_size = Inr tile \<Longrightarrow> chans img = 1 \<Longrightarrow>
   resize_image_to_square interp img new_size = Inl IndexError"
  using resized_tile_ndim [of interp img new_size tile]
  by (simp add: resize_image_to_square_def center_image_nd_def)

text \<open>
  Claim C2, as stated: for an image that is higher than wide the resized tile has the
  width of the resize target and a height scaled by the same ratio. For an image of 4
  rows and 2 columns and the target \<^verbatim>\<open>[256, 256]\<close> the tile has 256 rows and 128
  columns: the height is held at the target and the width is scaled.
\<close>

theorem resized_tile_width_counterexample:
  "(case resized_tile (\<lambda>src w h r c k. 0)
           \<lparr>rows = 4, cols = 2, chans = 3, px = (\<lambda>r c k. 0)\<rparr> (PyList 256 256) of
      Inl e \<Rightarrow> None
    | Inr tile \<Rightarrow> Some (rows tile, cols tile)) = Some (256, 128)
   \<and> (128 :: nat) \<noteq> 256"
  by (simp add: resized_tile_def tile_size_def cv2_resize_def int_truediv_def)

text \<open>
  Claim C2, amended. Let \<open>S\<close> be \<^verbatim>\<open>new_size[1]\<close>, the only entry of the target that the
  resize reads, and let the image have positive height and width. If the longer side
  is at most \<open>S\<close> times the shorter side, the resize returns a tile: when the height
  exceeds the width the tile has height \<open>S\<close> and width \<open>\<lfloor>width * S / height\<rfloor>\<close>;
  otherwise it has width \<open>S\<close> and height \<open>\<lfloor>height * S / width\<rfloor>\<close>; in both cases no side
  is larger than \<open>S\<close>. If the longer side is more than \<open>S\<close> times the shorter side, the
  resize raises the OpenCV error.
\<close>

theorem resized_tile_dims:
  assumes "0 < rows img" and "0 < cols img"
  shows "if int (max (rows img) (cols img)) \<le> item1 new_size * int (min (rows img) (cols img))
         then \<exists>tile. resized_tile interp img new_size = Inr tile
                \<and> chans tile = chans img
                \<and> (cols img < rows img \<longrightarrow>
                      int (rows tile) = item1 new_size
                      \<and> int (cols tile) = (int (cols img) * item1 new_size) div int (rows img))
                \<and> (rows img \<le> cols img \<longrightarrow>
                      int (cols tile) = item1 new_size
                      \<and> int (rows tile) = (int (rows img) * item1 new_size) div int (cols img))
                \<and> int (rows tile) \<le> item1 new_size \<and> int (cols tile) \<le> item1 new_size
         else resized_tile interp img new_size = Inl CvError"
proof (cases "int (max (rows img) (cols img)) \<le> item1 new_size * int (min (rows img) (cols img))")
  case True
  from resized_tile_ok [OF assms True, of interp] True show ?thesis
    by (simp only: if_True) blast
next
  case False
  from resized_tile_fails [OF assms False, of interp] False show ?thesis
    by (simp only: if_False)
qed

theorem resized_tile_dims_witness:
  "\<exists>tile. resized_tile (\<lambda>src w h r c k. 0)
             \<lparr>rows = 600, cols = 400, chans = 3, px = (\<lambda>r c k. 0)\<rparr> (PyList 256 256) = Inr tile
     \<and> rows tile = 256 \<and> cols tile = 170"
proof -
  define img :: "8 word ndarray"
    where "img = \<lparr>rows = 600, cols = 400, chans = 3, px = (\<lambda>r c k. 0)\<rparr>"
  have a: "0 < rows img" and b: "0 < cols img"
    by (simp_all add: img_def)
  have c: "int (max (rows img) (cols img))
             \<le> item1 (PyList 256 256) * int (min (rows img) (cols img))"
    by (simp add: img_def)
  from resized_tile_dims [OF a b, of "PyList 256 256" "\<lambda>src w h r c k. 0"] c
  obtain tile where "resized_tile (\<lambda>src w h r c k. 0) img (PyList 256 256) = Inr tile"
    and "cols img < rows img \<longrightarrow>
           int (rows tile) = item1 (PyList 256 256)
           \<and> int (cols tile) = (int (cols img) * item1 (PyList 256 256)) div int (rows img)"
    by (simp only: if_True) blast
  then have "resized_tile (\<lambda>src w h r c k. 0) img (PyList 256 256) = Inr tile
      \<and> rows tile = 256 \<and> cols tile = 170"
    by (simp add: img_def)
  then show ?thesis
    unfolding img_def by blast
qed

lemma tile_size_bounds:
  assumes "0 < rows img" and "0 < cols img" and "0 \<le> item1 new_size"
  shows "\<exists>tw th. tile_size img new_size = Inr (tw, th)
           \<and> 0 \<le> tw \<and> tw \<le> item1 new_size \<and> 0 \<le> th \<and> th \<le> item1 new_size"
proof (cases "cols img < rows img")
  case True
  have "0 \<le> (int (cols img) * item1 new_size) div int (rows img)"
    using assms by (simp add: pos_imp_zdiv_nonneg_iff)
  moreover have "(int (cols img) * item1 new_size) div int (rows img) \<le> item1 new_size"
    using scaled_le [of "cols img" "rows img" "item1 new_size"] True assms by simp
  ultimately show ?thesis
    using tile_size_tall [OF True assms(3)] assms(3) by simp
next
  case False
  then have le: "rows img \<le> cols img"
    by simp
  have "0 \<le> (int (rows img) * item1 new_size) div int (cols img)"
    using assms by (simp add: pos_imp_zdiv_nonneg_iff)
  moreover have "(int (rows img) * item1 new_size) div int (cols img) \<le> item1 new_size"
    using scaled_le [of "rows img" "cols img" "item1 new_size"] le assms by simp
  ultimately show ?thesis
    using tile_size_wide [OF le assms(2,3)] assms(3) by simp
qed

lemma center_margin:
  assumes "0 \<le> t" and "t \<le> (S :: int)"
  shows "0 \<le> (S - t) div 2 \<and> (S - t) div 2 + t \<le> S"
  using assms by simp

text \<open>
  Claim C9, as stated: for every image of positive height and width and three channels
  and a square target, \<^verbatim>\<open>resize_image_to_square\<close> returns an array of the shape of the
  target, whatever the aspect ratio. An image of 257 rows, 1 column and three channels
  scales to a tile of width \<open>\<lfloor>256 / 257\<rfloor> = 0\<close>, on which \<^verbatim>\<open>cv2.resize\<close> raises.
\<close>

theorem resize_to_square_counterexample:
  "resize_image_to_square (\<lambda>src w h r c k. 0)
     \<lparr>rows = 257, cols = 1, chans = 3, px = (\<lambda>r c k. 0)\<rparr> (PyList 256 256) = Inl CvError"
  by (simp add: resize_image_to_square_def resized_tile_def tile_size_def cv2_resize_def
      int_truediv_def)

text \<open>
  Claim C9, amended. Take an image of positive height and width and three channels and
  the square list target \<^verbatim>\<open>[S, S]\<close>. Whatever the aspect ratio, for \<open>S \<ge> 0\<close> the
  computed tile sides lie between 0 and \<open>S\<close>, both centring buffers are non-negative,
  and the tile placed at the buffers ends inside the canvas. If the longer side of the
  image is at most \<open>S\<close> times the shorter side, both tile sides are at least 1 and
  \<^verbatim>\<open>resize_image_to_square\<close> returns a \<^verbatim>\<open>uint8\<close> array of shape \<open>(S, S, 3)\<close>; otherwise a
  tile side is 0 (or \<open>S\<close> is negative) and the call raises the OpenCV error.
\<close>

theorem resize_to_square_shape:
  assumes "0 < rows img" and "0 < cols img" and "chans img = 3"
  shows "(0 \<le> S \<longrightarrow>
            (\<exists>tw th. tile_size img (PyList S S) = Inr (tw, th)
               \<and> 0 \<le> tw \<and> tw \<le> S \<and> 0 \<le> th \<and> th \<le> S
               \<and> 0 \<le> (S - th) div 2 \<and> (S - th) div 2 + th \<le> S
               \<and> 0 \<le> (S - tw) div 2 \<and> (S - tw) div 2 + tw \<le> S))
       \<and> (if int (max (rows img) (cols img)) \<le> S * int (min (rows img) (cols img))
          then \<exists>tw th sq. tile_size img (PyList S S) = Inr (tw, th)
                 \<and> 1 \<le> tw \<and> tw \<le> S \<and> 1 \<le> th \<and> th \<le> S
                 \<and> 0 \<le> (S - th) div 2 \<and> (S - th) div 2 + th \<le> S
                 \<and> 0 \<le> (S - tw) div 2 \<and> (S - tw) div 2 + tw \<le> S
                 \<and> resize_image_to_square interp img (PyList S S) = Inr sq
                 \<and> shape sq = (nat S, nat S, 3)
          else resize_image_to_square interp img (PyList S S) = Inl CvError)"
proof (rule conjI)
  show "0 \<le> S \<longrightarrow>
          (\<exists>tw th. tile_size img (PyList S S) = Inr (tw, th)
             \<and> 0 \<le> tw \<and> tw \<le> S \<and> 0 \<le> th \<and> th \<le> S
             \<and> 0 \<le> (S - th) div 2 \<and> (S - th) div 2 + th \<le> S
             \<and> 0 \<le> (S - tw) div 2 \<and> (S - tw) div 2 + tw \<le> S)"
  proof
    assume "0 \<le> S"
    then have "0 \<le> item1 (PyList S S)"
      by simp
    from tile_size_bounds [OF assms(1,2) this]
    obtain tw th where ts: "tile_size img (PyList S S) = Inr (tw, th)"
      and tw: "0 \<le> tw" "tw \<le> S" and th: "0 \<le> th" "th \<le> S"
      by auto
    from center_margin [OF th] center_margin [OF tw] ts tw th
    show "\<exists>tw th. tile_size img (PyList S S) = Inr (tw, th)
        \<and> 0 \<le> tw \<and> tw \<le> S \<and> 0 \<le> th \<and> th \<le> S
        \<and> 0 \<le> (S - th) div 2 \<and> (S - th) div 2 + th \<le> S
        \<and> 0 \<le> (S - tw) div 2 \<and> (S - tw) div 2 + tw \<le> S"
      by blast
  qed
next
  show "if int (max (rows img) (cols img)) \<le> S * int (min (rows img) (cols img))
        then \<exists>tw th sq. tile_size img (PyList S S) = Inr (tw, th)
               \<and> 1 \<le> tw \<and> tw \<le> S \<and> 1 \<le> th \<and> th \<le> S
               \<and> 0 \<le> (S - th) div 2 \<and> (S - th) div 2 + th \<le> S
               \<and> 0 \<le> (S - tw) div 2 \<and> (S - tw) div 2 + tw \<le> S
               \<and> resize_image_to_square interp img (PyList S S) = Inr sq
               \<and> shape sq = (nat S, nat S, 3)
        else resize_image_to_square interp img (PyList S S) = Inl CvError"
  proof (cases "int (max (rows img) (cols img)) \<le> S * int (min (rows img) (cols img))")
    case True
    then have fit: "int (max (rows img) (cols img))
                      \<le> item1 (PyList S S) * int (min (rows img) (cols img))"
      by simp
    from resized_tile_ok [OF assms(1,2) fit, of interp]
    obtain tile where tile: "resized_tile interp img (PyList S S) = Inr tile"
      and ch: "chans tile = chans img"
      and lo: "1 \<le> int (rows tile)" "1 \<le> int (cols tile)"
      and hi: "int (rows tile) \<le> S" "int (cols tile) \<le> S"
      by auto
    have nd: "ndim tile = 3"
      using resized_tile_ndim [OF tile] assms(3) by simp
    from tile obtain dsize where ts: "tile_size img (PyList S S) = Inr dsize"
      and rs: "cv2_resize interp img dsize = Inr tile"
      by (auto simp: resized_tile_def split: sum.splits)
    obtain tw th where dsize: "dsize = (tw, th)"
      by (cases dsize)
    from rs dsize have dims: "tw = int (cols tile)" "th = int (rows tile)"
      by (auto simp: cv2_resize_def split: if_splits)
    from center_image_nd_fit [OF nd hi] obtain sq
      where sq: "center_image_nd tile (PyList S S) = Inr sq"
        and "shape sq = (nat S, nat S, chans tile)"
      by blast
    then have "resize_image_to_square interp img (PyList S S) = Inr sq"
      and "shape sq = (nat S, nat S, 3)"
      using tile ch assms(3) by (simp_all add: resize_image_to_square_def)
    moreover have "0 \<le> (S - th) div 2" "(S - th) div 2 + th \<le> S"
      and "0 \<le> (S - tw) div 2" "(S - tw) div 2 + tw \<le> S"
      using lo hi dims by simp_all
    ultimately have "tile_size img (PyList S S) = Inr (tw, th)
        \<and> 1 \<le> tw \<and> tw \<le> S \<and> 1 \<le> th \<and> th \<le> S
        \<and> 0 \<le> (S - th) div 2 \<and> (S - th) div 2 + th \<le> S
        \<and> 0 \<le> (S - tw) div 2 \<and> (S - tw) div 2 + tw \<le> S
        \<and> resize_image_to_square interp img (PyList S S) = Inr sq
        \<and> shape sq = (nat S, nat S, 3)"
      using ts dsize dims lo hi by simp
    with True show ?thesis
      by (simp only: if_True) blast
  next
    case False
    then have "\<not> int (max (rows img) (cols img))
                 \<le> item1 (PyList S S) * int (min (rows img) (cols img))"
      by simp
    from resized_tile_fails [OF assms(1,2) this, of interp] False show ?thesis
      by (simp add: resize_image_to_square_def)
  qed
qed

theorem resize_to_square_shape_witness:
  "(\<exists>sq. resize_image_to_square (\<lambda>src w h r c k. 0)
            \<lparr>rows = 480, cols = 640, chans = 3, px = (\<lambda>r c k. 0)\<rparr> (PyList 256 256) = Inr sq
      \<and> shape sq = (256, 256, 3))
   \<and> (\<exists>tw th. tile_size \<lparr>rows = 257, cols = 1, chans = 3, px = (\<lambda>r c k. 0 :: 8 word)\<rparr>
                 (PyList 256 256) = Inr (tw, th)
        \<and> 0 \<le> tw \<and> tw \<le> 256 \<and> 0 \<le> th \<and> th \<le> 256
        \<and> 0 \<le> (256 - th) div 2 \<and> (256 - th) div 2 + th \<le> 256
        \<and> 0 \<le> (256 - tw) div 2 \<and> (256 - tw) div 2 + tw \<le> 256)"
proof -
  define img :: "8 word ndarray"
    where "img = \<lparr>rows = 480, cols = 640, chans = 3, px = (\<lambda>r c k. 0)\<rparr>"
  define thin :: "8 word ndarray"
    where "thin = \<lparr>rows = 257, cols = 1, chans = 3, px = (\<lambda>r c k. 0)\<rparr>"
  have a: "0 < rows img" and b: "0 < cols img" and ch: "chans img = 3"
    by (simp_all add: img_def)
  have c: "int (max (rows img) (cols img)) \<le> 256 * int (min (rows img) (cols img))"
    by (simp add: img_def)
  from resize_to_square_shape [OF a b ch, of 256 "\<lambda>src w h r c k. 0"] c
  obtain sq where "resize_image_to_square (\<lambda>src w h r c k. 0) img (PyList 256 256) = Inr sq"
    and "shape sq = (nat 256, nat 256, 3)"
    by (simp only: if_True) blast
  then have "resize_image_to_square (\<lambda>src w h r c k. 0) img (PyList 256 256) = Inr sq
      \<and> shape sq = (256, 256, 3)"
    by simp
  then have first: "\<exists>sq. resize_image_to_square (\<lambda>src w h r c k. 0) img (PyList 256 256) = Inr sq
      \<and> shape sq = (256, 256, 3)"
    by blast
  have a': "0 < rows thin" and b': "0 < cols thin" and ch': "chans thin = 3"
    by (simp_all add: thin_def)
  have S0: "(0 :: int) \<le> 256"
    by simp
  from resize_to_square_shape [OF a' b' ch', of 256 "\<lambda>src w h r c k. 0"] S0
  have "\<exists>tw th. tile_size thin (PyList 256 256) = Inr (tw, th)
        \<and> 0 \<le> tw \<and> tw \<le> 256 \<and> 0 \<le> th \<and> th \<le> 256
        \<and> 0 \<le> (256 - th) div 2 \<and> (256 - th) div 2 + th \<le> 256
        \<and> 0 \<le> (256 - tw) div 2 \<and> (256 - tw) div 2 + tw \<le> 256"
    by blast
  with first show ?thesis
    unfolding img_def thin_def by blast
qed

text \<open>
  Claim C1, as stated: with the default targets the pipeline gives an output of shape
  \<open>(224, 224, 3)\<close> for every input image of three channels. For an image of 1 row, 300
  columns and three channels the tile height is \<open>\<lfloor>256 / 300\<rfloor> = 0\<close> and the pipeline
  raises instead.
\<close>

theorem normalize_shape_counterexample:
  "normalize (\<lambda>src w h r c k. 0)
     \<lparr>rows = 1, cols = 300, chans = 3, px = (\<lambda>r c k. 0)\<rparr> (PyList 256 256) (PyList 224 224)
     = Inl CvError"
  by (simp add: normalize_def resize_image_to_square_def resized_tile_def tile_size_def
      cv2_resize_def int_truediv_def)

text \<open>
  Claim C1, amended. Take an image of shape \<open>(h, w, 3)\<close> with \<open>h, w > 0\<close> whose longer
  side is at most \<open>W\<close> times its shorter side, a list resize target \<^verbatim>\<open>[H, W]\<close> with
  \<open>W \<le> H\<close> (a square in particular) and a crop target with \<open>0 \<le> crop.H \<le> H\<close> and
  \<open>0 \<le> crop.W \<le> W\<close>. Then the pipeline of resize, centring and crop returns an image
  that has on each axis the crop target's length, plus one where the difference of
  resize and crop target is odd on that axis, and three channels. With \<^verbatim>\<open>[256, 256]\<close>
  and \<^verbatim>\<open>[224, 224]\<close> that is \<open>(224, 224, 3)\<close>.
\<close>

theorem normalize_shape:
  assumes "0 < rows img" and "0 < cols img" and "chans img = 3"
    and "int (max (rows img) (cols img)) \<le> W * int (min (rows img) (cols img))"
    and "W \<le> H"
    and "0 \<le> item0 crop_size" and "item0 crop_size \<le> H"
    and "0 \<le> item1 crop_size" and "item1 crop_size \<le> W"
  shows "\<exists>out. normalize interp img (PyList H W) crop_size = Inr out
           \<and> shape out = (nat (item0 crop_size + (H - item0 crop_size) mod 2),
                          nat (item1 crop_size + (W - item1 crop_size) mod 2),
                          3)"
proof -
  have fit: "int (max (rows img) (cols img))
               \<le> item1 (PyList H W) * int (min (rows img) (cols img))"
    using assms(4) by simp
  from resized_tile_ok [OF assms(1,2) fit, of interp]
  obtain tile where tile: "resized_tile interp img (PyList H W) = Inr tile"
    and ch: "chans tile = chans img"
    and hi: "int (rows tile) \<le> W" "int (cols tile) \<le> W"
    by auto
  have nd: "ndim tile = 3"
    using resized_tile_ndim [OF tile] assms(3) by simp
  have "int (rows tile) \<le> H"
    using hi(1) assms(5) by simp
  from center_image_nd_fit [OF nd this hi(2)] obtain sq
    where sq: "center_image_nd tile (PyList H W) = Inr sq"
      and shp: "shape sq = (nat H, nat W, chans tile)"
    by blast
  have H0: "0 \<le> H" and W0: "0 \<le> W"
    using assms(6-9) by linarith+
  have dims: "int (rows sq) = H" "int (cols sq) = W" "chans sq = 3"
    using shp ch H0 W0 assms(3) by (simp_all add: shape_def)
  have "shape (crop_image sq crop_size)
          = (nat (item0 crop_size + (int (rows sq) - item0 crop_size) mod 2),
             nat (item1 crop_size + (int (cols sq) - item1 crop_size) mod 2), chans sq)"
    using assms(6-9) by (intro crop_image_shape) (simp_all add: dims)
  moreover have "normalize interp img (PyList H W) crop_size = Inr (crop_image sq crop_size)"
    using tile sq by (simp add: normalize_def resize_image_to_square_def)
  ultimately show ?thesis
    by (simp add: dims)
qed

theorem normalize_shape_witness:
  "(\<exists>out. normalize (\<lambda>src w h r c k. 0)
            \<lparr>rows = 480, cols = 640, chans = 3, px = (\<lambda>r c k. 0)\<rparr>
            (PyList 256 256) (PyList 224 224) = Inr out
      \<and> shape out = (224, 224, 3))
   \<and> (\<exists>out. normalize (\<lambda>src w h r c k. 0)
            \<lparr>rows = 480, cols = 640, chans = 3, px = (\<lambda>r c k. 0)\<rparr>
            (PyList 256 256) (PyList 223 224) = Inr out
      \<and> shape out = (224, 224, 3))"
proof -
  define img :: "8 word ndarray"
    where "img = \<lparr>rows = 480, cols = 640, chans = 3, px = (\<lambda>r c k. 0)\<rparr>"
  have a: "0 < rows img" and b: "0 < cols img" and ch: "chans img = 3"
    by (simp_all add: img_def)
  have c: "int (max (rows img) (cols img)) \<le> 256 * int (min (rows img) (cols img))"
    by (simp add: img_def)
  have d: "(256 :: int) \<le> 256"
    by simp
  have "\<exists>out. normalize (\<lambda>src w h r c k. 0) img (PyList 256 256) (PyList 224 224) = Inr out
      \<and> shape out = (224, 224, 3)"
    using normalize_shape [OF a b ch c d, of "PyList 224 224" "\<lambda>src w h r c k. 0"]
    by simp
  moreover have "\<exists>out. normalize (\<lambda>src w h r c k. 0) img (PyList 256 256) (PyList 223 224) = Inr out
      \<and> shape out = (224, 224, 3)"
    using normalize_shape [OF a b ch c d, of "PyList 223 224" "\<lambda>src w h r c k. 0"]
    by simp
  ultimately show ?thesis
    unfolding img_def by blast
qed

section \<open>Properties of the batch processor\<close>

lemma center_image_shape:
  "center_image t new_size = Inr sq \<Longrightarrow> shape sq = (nat (item0 new_size), nat (item1 new_size), chans t)"
  by (cases new_size) (auto simp: center_image_def Let_def shape_def split: if_splits prod.splits)

lemma resized_tile_chans: "resized_tile interp img new_size = Inr t \<Longrightarrow> chans t = chans img"
  by (auto simp: resized_tile_def cv2_resize_def split: sum.splits if_splits prod.splits)

lemma cvtColor_chans: "cvtColor_BGR2RGB src = Inr img \<Longrightarrow> chans img = 3"
  by (auto simp: cvtColor_BGR2RGB_def split: option.splits if_splits)

lemma crop_image_shape_cong:
  "shape a = shape b \<Longrightarrow> shape (crop_image a crop_size) = shape (crop_image b crop_size)"
  by (simp add: crop_image_def shape_def Let_def split: prod.splits)

lemma process_one_shape:
  assumes "process_one imread interp resize_new_size crop_size p = Inr a"
  shows "shape a = shape (crop_image
           \<lparr>rows = nat (item0 resize_new_size), cols = nat (item1 resize_new_size), chans = 3,
            px = (\<lambda>r c k. 0 :: 8 word)\<rparr> crop_size)"
proof -
  from assms obtain img sq where img: "cvtColor_BGR2RGB (imread p) = Inr img"
    and sq: "resize_image_to_square interp img resize_new_size = Inr sq"
    and a: "a = crop_image sq crop_size"
    by (auto simp: process_one_def normalize_def split: sum.splits)
  from sq obtain t where t: "resized_tile interp img resize_new_size = Inr t"
    and c: "center_image \<lparr>rows = rows t, cols = cols t, chans = chans t, px = px t\<rparr>
              resize_new_size = Inr sq"
    by (auto simp: resize_image_to_square_def center_image_nd_def split: sum.splits if_splits)
  have "shape sq = (nat (item0 resize_new_size), nat (item1 resize_new_size), 3)"
    using center_image_shape [OF c] resized_tile_chans [OF t] cvtColor_chans [OF img] by simp
  then show ?thesis
    unfolding a by (intro crop_image_shape_cong) (simp add: shape_def)
qed

lemma process_loop_ok:
  assumes "\<forall>p\<in>set file_paths. \<exists>img. process_one imread interp rs cs p = Inr img"
  shows "process_loop imread interp rs cs file_paths x
           = Inr (x @ map (\<lambda>p. projr (process_one imread interp rs cs p)) file_paths)"
  using assms
proof (induction file_paths arbitrary: x)
  case Nil
  show ?case by simp
next
  case (Cons p ps)
  from Cons.prems obtain img where img: "process_one imread interp rs cs p = Inr img"
    by auto
  from Cons.prems have "\<forall>q\<in>set ps. \<exists>img. process_one imread interp rs cs q = Inr img"
    by simp
  from Cons.IH [OF this, of "x @ [img]"] img show ?case
    by simp
qed

lemma process_loop_fail:
  assumes "\<exists>p\<in>set file_paths. \<exists>e. process_one imread interp rs cs p = Inl e"
  shows "\<exists>e. process_loop imread interp rs cs file_paths x = Inl e"
  using assms
proof (induction file_paths arbitrary: x)
  case Nil
  then show ?case by simp
next
  case (Cons p ps)
  show ?case
  proof (cases "process_one imread interp rs cs p")
    case (Inl e)
    then show ?thesis by simp
  next
    case (Inr img)
    with Cons.prems have "\<exists>q\<in>set ps. \<exists>e. process_one imread interp rs cs q = Inl e"
      by auto
    from Cons.IH [OF this, of "x @ [img]"] Inr show ?thesis
      by simp
  qed
qed

text \<open>
  Claim C5, as stated: for every list of paths \<^verbatim>\<open>process_images\<close> returns one processed
  image per path. For a path that \<^verbatim>\<open>cv2.imread\<close> cannot read it raises instead.
\<close>

theorem process_images_counterexample:
  "process_images (\<lambda>p. None) (\<lambda>src w h r c k. 0) [''missing.jpg'']
     (PyList 256 256) (PyList 224 224) = Inl CvError"
  by (simp add: process_images_def process_one_def cvtColor_BGR2RGB_def)

text \<open>
  Claim C5, amended. \<^verbatim>\<open>process_images([])\<close> returns the empty sequence and raises
  nothing. For a list of paths each of which is read, converted, resized and cropped
  without an error, \<^verbatim>\<open>process_images\<close> returns exactly one image per path, in the order
  of the paths: element \<open>i\<close> is the processed image of path \<open>i\<close>. If the processing of
  some path raises, the whole call raises and returns no image.
\<close>

theorem process_images_length_order:
  "process_images imread interp [] rs cs = Inr []
   \<and> ((\<forall>p\<in>set file_paths. \<exists>img. process_one imread interp rs cs p = Inr img) \<longrightarrow>
        (\<exists>x. process_images imread interp file_paths rs cs = Inr x
           \<and> length x = length file_paths
           \<and> (\<forall>i<length file_paths.
                 process_one imread interp rs cs (file_paths ! i) = Inr (x ! i))))
   \<and> ((\<exists>p\<in>set file_paths. \<exists>e. process_one imread interp rs cs p = Inl e) \<longrightarrow>
        (\<exists>e. process_images imread interp file_paths rs cs = Inl e))"
proof (intro conjI impI)
  show "process_images imread interp [] rs cs = Inr []"
    by (simp add: process_images_def np_array_def)
next
  assume ok: "\<forall>p\<in>set file_paths. \<exists>img. process_one imread interp rs cs p = Inr img"
  define x where "x = map (\<lambda>p. projr (process_one imread interp rs cs p)) file_paths"
  have loop: "process_loop imread interp rs cs file_paths [] = Inr x"
    using process_loop_ok [OF ok, of "[]"] by (simp add: x_def)
  have nth: "process_one imread interp rs cs (file_paths ! i) = Inr (x ! i)"
    if "i < length file_paths" for i
  proof -
    from that ok obtain img where "process_one imread interp rs cs (file_paths ! i) = Inr img"
      by (meson nth_mem)
    then show ?thesis
      using that by (simp add: x_def)
  qed
  have "shape a = shape (hd x)" if "a \<in> set x" for a
  proof -
    from that obtain i where i: "i < length file_paths" and a: "a = x ! i"
      by (auto simp: x_def in_set_conv_nth)
    from i have pos: "0 < length file_paths" by linarith
    then have "x \<noteq> []" by (simp add: x_def)
    then have hd: "hd x = x ! 0"
      by (simp add: hd_conv_nth)
    show ?thesis
      unfolding a hd
      using process_one_shape [OF nth [OF i]] process_one_shape [OF nth [OF pos]]
      by simp
  qed
  then have "np_array x = Inr x"
    by (simp add: np_array_def)
  then have "process_images imread interp file_paths rs cs = Inr x"
    using loop by (simp add: process_images_def)
  moreover have "length x = length file_paths"
    by (simp add: x_def)
  ultimately show "\<exists>x. process_images imread interp file_paths rs cs = Inr x
           \<and> length x = length file_paths
           \<and> (\<forall>i<length file_paths.
                 process_one imread interp rs cs (file_paths ! i) = Inr (x ! i))"
    using nth by blast
next
  assume "\<exists>p\<in>set file_paths. \<exists>e. process_one imread interp rs cs p = Inl e"
  from process_loop_fail [OF this, of "[]"]
  show "\<exists>e. process_images imread interp file_paths rs cs = Inl e"
    by (auto simp: process_images_def)
qed

theorem process_images_length_order_witness:
  "\<exists>x. process_images
          (\<lambda>p. Some \<lparr>rows = 2, cols = 2, chans = 3, px = (\<lambda>r c k. of_nat (length p))\<rparr>)
          (\<lambda>src w h r c k. px src 0 0 k) [''a'', ''bcd''] (PyList 8 8) (PyList 4 4) = Inr x
     \<and> length x = 2 \<and> px (x ! 0) 0 0 0 = 1 \<and> px (x ! 1) 0 0 0 = 3"
proof -
  define imread :: "string \<Rightarrow> 8 word ndarray option"
    where "imread = (\<lambda>p. Some \<lparr>rows = 2, cols = 2, chans = 3, px = (\<lambda>r c k. of_nat (length p))\<rparr>)"
  define interp :: interpolation
    where "interp = (\<lambda>src w h r c k. px src 0 0 k)"
  define one where "one = process_one imread interp (PyList 8 8) (PyList 4 4)"
  have a: "\<exists>img. one ''a'' = Inr img \<and> px img 0 0 0 = 1"
    by (simp add: one_def process_one_def imread_def interp_def cvtColor_BGR2RGB_def
        normalize_def resize_image_to_square_def resized_tile_def tile_size_def
        cv2_resize_def int_truediv_def center_image_nd_def center_image_def crop_image_def
        py_slice_def
        slice_bound_def broadcasts_def Let_def)
  have b: "\<exists>img. one ''bcd'' = Inr img \<and> px img 0 0 0 = 3"
    by (simp add: one_def process_one_def imread_def interp_def cvtColor_BGR2RGB_def
        normalize_def resize_image_to_square_def resized_tile_def tile_size_def
        cv2_resize_def int_truediv_def center_image_nd_def center_image_def crop_image_def
        py_slice_def
        slice_bound_def broadcasts_def Let_def)
  have all: "\<forall>p\<in>set [''a'', ''bcd'']. \<exists>img. one p = Inr img"
    using a b by auto
  from process_images_length_order [of imread interp "PyList 8 8" "PyList 4 4" "[''a'', ''bcd'']"] all
  obtain x where x: "process_images imread interp [''a'', ''bcd''] (PyList 8 8) (PyList 4 4) = Inr x"
    and len: "length x = length [''a'', ''bcd'']"
    and nth: "\<forall>i<length [''a'', ''bcd'']. one ([''a'', ''bcd''] ! i) = Inr (x ! i)"
    unfolding one_def by blast
  from nth have "one ''a'' = Inr (x ! 0)" and "one ''bcd'' = Inr (x ! 1)"
    by auto
  with a b have "px (x ! 0) 0 0 0 = 1 \<and> px (x ! 1) 0 0 0 = 3"
    by auto
  with x len show ?thesis
    unfolding imread_def interp_def by auto
qed

section \<open>Properties of the one-hot encoding\<close>

lemma indicator_row_sum:
  "sum_list (map (\<lambda>k. if int k = v then 1 else 0) [0..<n])
     = (if 0 \<le> v \<and> v < int n then (1 :: int) else 0)"
  by (induction n) auto

lemma to_categorical_index_error:
  assumes "0 < num_classes" and "\<exists>v\<in>set y. num_classes \<le> v \<or> v < - num_classes"
  shows "to_categorical y num_classes = Inl IndexError"
  using assms by (auto simp: to_categorical_def Let_def)

lemma to_categorical_rows:
  assumes "0 < num_classes" and "\<forall>v\<in>set y. - num_classes \<le> v \<and> v < num_classes"
  shows "\<exists>m. to_categorical y num_classes = Inr m \<and> length m = length y
           \<and> (\<forall>i<length y. length (m ! i) = nat num_classes
                 \<and> (\<forall>k<nat num_classes.
                       m ! i ! k = (if int k = (if y ! i < 0 then y ! i + num_classes else y ! i)
                                    then 1 else 0))
                 \<and> sum_list (m ! i) = 1)"
proof -
  define row where "row = (\<lambda>v. map (\<lambda>k. if int k = (if v < 0 then v + num_classes else v)
                                       then (1 :: int) else 0) [0..<nat num_classes])"
  have "\<not> (\<exists>v\<in>set y. v < - num_classes \<or> num_classes \<le> v)"
    using assms(2) by auto
  then have m: "to_categorical y num_classes = Inr (map row y)"
    using assms(1) by (simp add: to_categorical_def Let_def row_def)
  have "sum_list (row (y ! i)) = 1" if "i < length y" for i
  proof -
    from that assms(2) have "- num_classes \<le> y ! i \<and> y ! i < num_classes"
      by simp
    then show ?thesis
      using assms(1) by (simp add: row_def indicator_row_sum)
  qed
  then show ?thesis
    using m by (simp add: row_def)
qed

text \<open>
  Claim C7, as stated: the conversion fails whenever some label is negative. The label
  \<open>-1\<close> with three classes does not fail: numpy counts it from the end of the row, so it
  gets the row of the label 2.
\<close>

theorem one_hot_negative_counterexample:
  "convert_to_binary_class_matrices [- 1] [2] 3 = Inr ([[0, 0, 1]], [[0, 0, 1]])"
  by (simp add: convert_to_binary_class_matrices_def to_categorical_def Let_def upt_rec)

text \<open>
  Claim C7, amended. Let the class count be positive. The conversion fails, with
  numpy's \<open>IndexError\<close>, whenever some label is at least the class count or below its
  negative. When every label \<open>v\<close> lies from the negative class count up to the class
  count, it returns one row per label, each of the length of the class count: the
  indicator vector of \<open>v\<close> for \<open>v \<ge> 0\<close>, and of \<open>v\<close> plus the class count for \<open>v < 0\<close>; each
  row sums to 1. The labels 0, 2, 1 with three classes give the rows 100, 001, 010.
\<close>

theorem one_hot_rows:
  assumes "0 < nb_classes"
  shows "((\<exists>v\<in>set (y_train @ y_test). nb_classes \<le> v \<or> v < - nb_classes) \<longrightarrow>
            convert_to_binary_class_matrices y_train y_test nb_classes = Inl IndexError)
       \<and> ((\<forall>v\<in>set (y_train @ y_test). - nb_classes \<le> v \<and> v < nb_classes) \<longrightarrow>
            (\<exists>Y_train Y_test.
               convert_to_binary_class_matrices y_train y_test nb_classes = Inr (Y_train, Y_test)
               \<and> length Y_train = length y_train
               \<and> (\<forall>i<length y_train. length (Y_train ! i) = nat nb_classes
                     \<and> (\<forall>k<nat nb_classes.
                           Y_train ! i ! k
                             = (if int k = (if y_train ! i < 0 then y_train ! i + nb_classes
                                            else y_train ! i)
                                then 1 else 0))
                     \<and> sum_list (Y_train ! i) = 1)
               \<and> length Y_test = length y_test
               \<and> (\<forall>i<length y_test. length (Y_test ! i) = nat nb_classes
                     \<and> (\<forall>k<nat nb_classes.
                           Y_test ! i ! k
                             = (if int k = (if y_test ! i < 0 then y_test ! i + nb_classes
                                            else y_test ! i)
                                then 1 else 0))
                     \<and> sum_list (Y_test ! i) = 1)))
       \<and> to_categorical [0, 2, 1] 3 = Inr [[1, 0, 0], [0, 0, 1], [0, 1, 0]]"
proof (intro conjI impI)
  assume bad: "\<exists>v\<in>set (y_train @ y_test). nb_classes \<le> v \<or> v < - nb_classes"
  show "convert_to_binary_class_matrices y_train y_test nb_classes = Inl IndexError"
  proof (cases "\<exists>v\<in>set y_train. nb_classes \<le> v \<or> v < - nb_classes")
    case True
    from to_categorical_index_error [OF assms True] show ?thesis
      by (simp add: convert_to_binary_class_matrices_def)
  next
    case False
    with bad have test: "\<exists>v\<in>set y_test. nb_classes \<le> v \<or> v < - nb_classes"
      by auto
    from False have "\<forall>v\<in>set y_train. - nb_classes \<le> v \<and> v < nb_classes"
      by auto
    from to_categorical_rows [OF assms this] obtain m
      where "to_categorical y_train nb_classes = Inr m"
      by blast
    with to_categorical_index_error [OF assms test] show ?thesis
      by (simp add: convert_to_binary_class_matrices_def)
  qed
next
  assume ok: "\<forall>v\<in>set (y_train @ y_test). - nb_classes \<le> v \<and> v < nb_classes"
  then have tr: "\<forall>v\<in>set y_train. - nb_classes \<le> v \<and> v < nb_classes"
    and te: "\<forall>v\<in>set y_test. - nb_classes \<le> v \<and> v < nb_classes"
    by auto
  from to_categorical_rows [OF assms tr] obtain Y_train
    where a: "to_categorical y_train nb_classes = Inr Y_train"
      and a': "length Y_train = length y_train
         \<and> (\<forall>i<length y_train. length (Y_train ! i) = nat nb_classes
               \<and> (\<forall>k<nat nb_classes.
                     Y_train ! i ! k
                       = (if int k = (if y_train ! i < 0 then y_train ! i + nb_classes
                                      else y_train ! i)
                          then 1 else 0))
               \<and> sum_list (Y_train ! i) = 1)"
    by blast
  from to_categorical_rows [OF assms te] obtain Y_test
    where b: "to_categorical y_test nb_classes = Inr Y_test"
      and b': "length Y_test = length y_test
         \<and> (\<forall>i<length y_test. length (Y_test ! i) = nat nb_classes
               \<and> (\<forall>k<nat nb_classes.
                     Y_test ! i ! k
                       = (if int k = (if y_test ! i < 0 then y_test ! i + nb_classes
                                      else y_test ! i)
                          then 1 else 0))
               \<and> sum_list (Y_test ! i) = 1)"
    by blast
  have "convert_to_binary_class_matrices y_train y_test nb_classes = Inr (Y_train, Y_test)"
    using a b by (simp add: convert_to_binary_class_matrices_def)
  with a' b' show "\<exists>Y_train Y_test.
       convert_to_binary_class_matrices y_train y_test nb_classes = Inr (Y_train, Y_test)
       \<and> length Y_train = length y_train
       \<and> (\<forall>i<length y_train. length (Y_train ! i) = nat nb_classes
             \<and> (\<forall>k<nat nb_classes.
                   Y_train ! i ! k
                     = (if int k = (if y_train ! i < 0 then y_train ! i + nb_classes
                                    else y_train ! i)
                        then 1 else 0))
             \<and> sum_list (Y_train ! i) = 1)
       \<and> length Y_test = length y_test
       \<and> (\<forall>i<length y_test. length (Y_test ! i) = nat nb_classes
             \<and> (\<forall>k<nat nb_classes.
                   Y_test ! i ! k
                     = (if int k = (if y_test ! i < 0 then y_test ! i + nb_classes
                                    else y_test ! i)
                        then 1 else 0))
             \<and> sum_list (Y_test ! i) = 1)"
    by blast
next
  show "to_categorical [0, 2, 1] 3 = Inr [[1, 0, 0], [0, 0, 1], [0, 1, 0]]"
    by (simp add: to_categorical_def Let_def upt_rec)
qed

theorem one_hot_rows_witness:
  "convert_to_binary_class_matrices [5] [0] 3 = Inl IndexError
   \<and> (\<exists>Y_train Y_test.
        convert_to_binary_class_matrices [0, 2] [1] 3 = Inr (Y_train, Y_test)
        \<and> sum_list (Y_train ! 1) = 1 \<and> Y_train ! 1 ! 2 = 1 \<and> Y_test ! 0 ! 1 = 1)"
proof -
  define y_train :: "int list" where "y_train = [0, 2]"
  define y_test :: "int list" where "y_test = [1]"
  have pos: "(0 :: int) < 3"
    by simp
  have bad: "\<exists>v\<in>set ([5] @ [0]). (3 :: int) \<le> v \<or> v < - 3"
    by simp
  have ok: "\<forall>v\<in>set (y_train @ y_test). - (3 :: int) \<le> v \<and> v < 3"
    by (simp add: y_train_def y_test_def)
  have "convert_to_binary_class_matrices [5] [0] 3 = Inl IndexError"
    using one_hot_rows [OF pos, of "[5]" "[0]"] bad by blast
  moreover from one_hot_rows [OF pos, of y_train y_test] ok
  obtain Y_train Y_test
    where conv: "convert_to_binary_class_matrices y_train y_test 3 = Inr (Y_train, Y_test)"
      and tr: "\<forall>i<length y_train. length (Y_train ! i) = nat 3
             \<and> (\<forall>k<nat 3.
                   Y_train ! i ! k
                     = (if int k = (if y_train ! i < 0 then y_train ! i + 3 else y_train ! i)
                        then 1 else 0))
             \<and> sum_list (Y_train ! i) = 1"
      and te: "\<forall>i<length y_test. length (Y_test ! i) = nat 3
             \<and> (\<forall>k<nat 3.
                   Y_test ! i ! k
                     = (if int k = (if y_test ! i < 0 then y_test ! i + 3 else y_test ! i)
                        then 1 else 0))
             \<and> sum_list (Y_test ! i) = 1"
    by blast
  from tr have "sum_list (Y_train ! 1) = 1 \<and> Y_train ! 1 ! 2 = 1"
    by (simp add: y_train_def)
  moreover from te have "Y_test ! 0 ! 1 = 1"
    by (simp add: y_test_def)
  ultimately show ?thesis
    using conv unfolding y_train_def y_test_def by blast
qed

section \<open>Properties of the split\<close>

lemma index_of_nth: "v \<in> set xs \<Longrightarrow> index_of xs v < length xs \<and> xs ! index_of xs v = v"
  by (induction xs) auto

lemma fit_transform_nth:
  assumes "j < length y"
  shows "fit_transform y ! j = int (index_of (classes_of y) (y ! j))"
    and "nat (fit_transform y ! j) < length (classes_of y)"
    and "classes_of y ! nat (fit_transform y ! j) = y ! j"
proof -
  show code: "fit_transform y ! j = int (index_of (classes_of y) (y ! j))"
    using assms by (simp add: fit_transform_def)
  have "y ! j \<in> set (classes_of y)"
    using assms by (simp add: classes_of_def)
  from index_of_nth [OF this] code
  show "nat (fit_transform y ! j) < length (classes_of y)"
    and "classes_of y ! nat (fit_transform y ! j) = y ! j"
    by simp_all
qed

lemma map_px_map_px: "map_px g (map_px f a) = map_px (\<lambda>v. g (f v)) a"
  by (simp add: map_px_def)

lemma permutation_nth:
  assumes "mset p = mset [0..<n]" and "i < n"
  shows "p ! i < n"
proof -
  have "length p = n"
    using mset_eq_length [OF assms(1)] by simp
  moreover have "set p = {0..<n}"
    using mset_eq_setD [OF assms(1)] by simp
  ultimately show ?thesis
    using assms(2) nth_mem [of i p] by auto
qed

lemma train_test_split_ok:
  assumes "length y = length x" and "2 \<le> length x"
  shows "train_test_split permutation x y
           = Inr (map (\<lambda>i. x ! i)
                    (take (length x - (length x + 3) div 4)
                       (drop ((length x + 3) div 4) (permutation (length x)))),
                  map (\<lambda>i. x ! i) (take ((length x + 3) div 4) (permutation (length x))),
                  map (\<lambda>i. y ! i)
                    (take (length x - (length x + 3) div 4)
                       (drop ((length x + 3) div 4) (permutation (length x)))),
                  map (\<lambda>i. y ! i) (take ((length x + 3) div 4) (permutation (length x))))"
proof -
  have "length x - (length x + 3) div 4 \<noteq> 0"
    using assms(2) by linarith
  then show ?thesis
    using assms(1) by (simp add: train_test_split_def Let_def)
qed

text \<open>
  Claim C3. The label encoder is fitted once, on the whole label array, before the
  split, and the split selects images and codes by the same indices. So for an archive
  of at least two samples with as many labels as images, and a shuffled index range
  \<open>p\<close>, the call returns four arrays in which train element \<open>i\<close> is the rescaled image
  and the code of the archive position \<open>p[n_test + i]\<close>, and test element \<open>i\<close> those of
  the position \<open>p[i]\<close>, where \<open>n_test\<close> is a quarter of the samples, rounded up. Every
  code is the code that the encoder fitted on all labels gives, and it decodes, by the
  one list of classes, to the label at that position.
\<close>

theorem split_keeps_pairs:
  assumes "mset (permutation (length (arr_0 data))) = mset [0..<length (arr_0 data)]"
    and "length (arr_1 data) = length (arr_0 data)"
    and "2 \<le> length (arr_0 data)"
  shows "\<exists>X_train X_test y_train y_test.
           train_validation_split permutation astype_float32 truediv data
             = Inr (X_train, X_test, y_train, y_test)
           \<and> length y_train = length X_train \<and> length y_test = length X_test
           \<and> length X_train + length X_test = length (arr_0 data)
           \<and> length X_test = (length (arr_0 data) + 3) div 4
           \<and> (\<forall>i<length X_train.
                 permutation (length (arr_0 data)) ! (length X_test + i) < length (arr_0 data)
                 \<and> X_train ! i
                     = map_px (\<lambda>v. truediv (astype_float32 v) 255)
                         (arr_0 data ! (permutation (length (arr_0 data)) ! (length X_test + i)))
                 \<and> y_train ! i
                     = fit_transform (arr_1 data)
                         ! (permutation (length (arr_0 data)) ! (length X_test + i))
                 \<and> nat (y_train ! i) < length (classes_of (arr_1 data))
                 \<and> classes_of (arr_1 data) ! nat (y_train ! i)
                     = arr_1 data ! (permutation (length (arr_0 data)) ! (length X_test + i)))
           \<and> (\<forall>i<length X_test.
                 permutation (length (arr_0 data)) ! i < length (arr_0 data)
                 \<and> X_test ! i
                     = map_px (\<lambda>v. truediv (astype_float32 v) 255)
                         (arr_0 data ! (permutation (length (arr_0 data)) ! i))
                 \<and> y_test ! i
                     = fit_transform (arr_1 data) ! (permutation (length (arr_0 data)) ! i)
                 \<and> nat (y_test ! i) < length (classes_of (arr_1 data))
                 \<and> classes_of (arr_1 data) ! nat (y_test ! i)
                     = arr_1 data ! (permutation (length (arr_0 data)) ! i))"
proof -
  define x where "x = arr_0 data"
  define y where "y = fit_transform (arr_1 data)"
  define n where "n = length x"
  define p where "p = permutation n"
  define n_test where "n_test = (n + 3) div 4"
  define rescale where "rescale = map_px (\<lambda>v. truediv (astype_float32 v) 255)"
  define X_train where "X_train = map (\<lambda>i. rescale (x ! i)) (take (n - n_test) (drop n_test p))"
  define X_test where "X_test = map (\<lambda>i. rescale (x ! i)) (take n_test p)"
  define y_train where "y_train = map (\<lambda>i. y ! i) (take (n - n_test) (drop n_test p))"
  define y_test where "y_test = map (\<lambda>i. y ! i) (take n_test p)"
  have leny: "length y = n" and len1: "length (arr_1 data) = n"
    using assms(2) by (simp_all add: y_def fit_transform_def n_def x_def)
  have n2: "2 \<le> n"
    using assms(3) by (simp add: n_def x_def)
  have perm: "mset p = mset [0..<n]"
    using assms(1) by (simp add: p_def n_def x_def)
  have lenp: "length p = n"
    using mset_eq_length [OF perm] by simp
  have pn: "p ! i < n" if "i < n" for i
    using permutation_nth [OF perm that] .
  have nt: "n_test \<le> n"
    by (simp add: n_test_def)
  have run: "train_validation_split permutation astype_float32 truediv data
      = Inr (X_train, X_test, y_train, y_test)"
    using train_test_split_ok [of y x permutation] leny n2
    by (simp add: train_validation_split_def Let_def x_def [symmetric] y_def [symmetric]
        n_def [symmetric] p_def [symmetric] n_test_def [symmetric] X_train_def X_test_def
        y_train_def y_test_def rescale_def map_px_map_px comp_def)
  have lens: "length X_train = n - n_test" "length X_test = n_test"
    "length y_train = n - n_test" "length y_test = n_test"
    using lenp nt by (simp_all add: X_train_def X_test_def y_train_def y_test_def)
  have train: "p ! (n_test + i) < n
      \<and> X_train ! i = rescale (x ! (p ! (n_test + i)))
      \<and> y_train ! i = y ! (p ! (n_test + i))
      \<and> nat (y_train ! i) < length (classes_of (arr_1 data))
      \<and> classes_of (arr_1 data) ! nat (y_train ! i) = arr_1 data ! (p ! (n_test + i))"
    if "i < n - n_test" for i
  proof -
    have j: "p ! (n_test + i) < n"
      using that by (intro pn) simp
    have "X_train ! i = rescale (x ! (p ! (n_test + i)))"
      and yi: "y_train ! i = y ! (p ! (n_test + i))"
      using that lenp by (simp_all add: X_train_def y_train_def)
    moreover have "nat (y ! (p ! (n_test + i))) < length (classes_of (arr_1 data))"
      and "classes_of (arr_1 data) ! nat (y ! (p ! (n_test + i))) = arr_1 data ! (p ! (n_test + i))"
      using fit_transform_nth(2,3) [of "p ! (n_test + i)" "arr_1 data"] j len1
      by (simp_all add: y_def)
    ultimately show ?thesis
      using j by simp
  qed
  have test: "p ! i < n
      \<and> X_test ! i = rescale (x ! (p ! i))
      \<and> y_test ! i = y ! (p ! i)
      \<and> nat (y_test ! i) < length (classes_of (arr_1 data))
      \<and> classes_of (arr_1 data) ! nat (y_test ! i) = arr_1 data ! (p ! i)"
    if "i < n_test" for i
  proof -
    have j: "p ! i < n"
      using that nt by (intro pn) simp
    have "X_test ! i = rescale (x ! (p ! i))"
      and yi: "y_test ! i = y ! (p ! i)"
      using that lenp nt by (simp_all add: X_test_def y_test_def)
    moreover have "nat (y ! (p ! i)) < length (classes_of (arr_1 data))"
      and "classes_of (arr_1 data) ! nat (y ! (p ! i)) = arr_1 data ! (p ! i)"
      using fit_transform_nth(2,3) [of "p ! i" "arr_1 data"] j len1
      by (simp_all add: y_def)
    ultimately show ?thesis
      using j by simp
  qed
  have "train_validation_split permutation astype_float32 truediv data
          = Inr (X_train, X_test, y_train, y_test)
      \<and> length y_train = length X_train \<and> length y_test = length X_test
      \<and> length X_train + length X_test = n
      \<and> length X_test = (n + 3) div 4
      \<and> (\<forall>i<length X_train.
            p ! (length X_test + i) < n
            \<and> X_train ! i = rescale (x ! (p ! (length X_test + i)))
            \<and> y_train ! i = y ! (p ! (length X_test + i))
            \<and> nat (y_train ! i) < length (classes_of (arr_1 data))
            \<and> classes_of (arr_1 data) ! nat (y_train ! i) = arr_1 data ! (p ! (length X_test + i)))
      \<and> (\<forall>i<length X_test.
            p ! i < n
            \<and> X_test ! i = rescale (x ! (p ! i))
            \<and> y_test ! i = y ! (p ! i)
            \<and> nat (y_test ! i) < length (classes_of (arr_1 data))
            \<and> classes_of (arr_1 data) ! nat (y_test ! i) = arr_1 data ! (p ! i))"
  proof -
    have l1: "length y_train = length X_train" and l2: "length y_test = length X_test"
      and l3: "length X_train + length X_test = n"
      and l4: "length X_test = (n + 3) div 4"
      using nt by (simp_all add: lens n_test_def [symmetric])
    have tr: "\<forall>i<length X_train.
            p ! (length X_test + i) < n
            \<and> X_train ! i = rescale (x ! (p ! (length X_test + i)))
            \<and> y_train ! i = y ! (p ! (length X_test + i))
            \<and> nat (y_train ! i) < length (classes_of (arr_1 data))
            \<and> classes_of (arr_1 data) ! nat (y_train ! i) = arr_1 data ! (p ! (length X_test + i))"
      using train unfolding lens by blast
    have te: "\<forall>i<length X_test.
            p ! i < n
            \<and> X_test ! i = rescale (x ! (p ! i))
            \<and> y_test ! i = y ! (p ! i)
            \<and> nat (y_test ! i) < length (classes_of (arr_1 data))
            \<and> classes_of (arr_1 data) ! nat (y_test ! i) = arr_1 data ! (p ! i)"
      using test unfolding lens by blast
    from run l1 l2 l3 l4 tr te show ?thesis
      by (intro conjI)
  qed
  then show ?thesis
    unfolding p_def n_def x_def y_def rescale_def by blast
qed

theorem split_keeps_pairs_witness:
  "\<exists>X_train X_test y_train y_test.
     train_validation_split (\<lambda>n. rev [0..<n]) (\<lambda>v. (of_nat (unat v) :: rat)) (\<lambda>a d. a / of_int d)
       \<lparr>arr_0 = map (\<lambda>v. \<lparr>rows = 1, cols = 1, chans = 3, px = (\<lambda>r c k. v)\<rparr>) [10, 20, 30, 40],
        arr_1 = [''rose'', ''lily'', ''rose'', ''aster'']\<rparr>
       = Inr (X_train, X_test, y_train, y_test)
     \<and> length X_train = 3 \<and> length X_test = 1
     \<and> px (X_train ! 0) 0 0 0 = 30 / 255 \<and> y_train ! 0 = 2
     \<and> px (X_test ! 0) 0 0 0 = 40 / 255 \<and> y_test ! 0 = 0"
proof -
  define data :: npz
    where "data = \<lparr>arr_0 = map (\<lambda>v. \<lparr>rows = 1, cols = 1, chans = 3, px = (\<lambda>r c k. v)\<rparr>) [10, 20, 30, 40],
                   arr_1 = [''rose'', ''lily'', ''rose'', ''aster'']\<rparr>"
  define permutation :: "nat \<Rightarrow> nat list" where "permutation = (\<lambda>n. rev [0..<n])"
  have n: "length (arr_0 data) = 4"
    by (simp add: data_def)
  have a: "mset (permutation (length (arr_0 data))) = mset [0..<length (arr_0 data)]"
    by (simp add: permutation_def)
  have b: "length (arr_1 data) = length (arr_0 data)"
    by (simp add: data_def)
  have c: "2 \<le> length (arr_0 data)"
    by (simp add: data_def)
  have p: "permutation 4 ! 1 = 2" "permutation 4 ! 0 = 3"
    by (simp_all add: permutation_def rev_nth)
  have codes: "fit_transform (arr_1 data) = [2, 1, 2, 0]"
    by (simp add: data_def fit_transform_def classes_of_def)
  from split_keeps_pairs [of permutation data "\<lambda>v. (of_nat (unat v) :: rat)"
      "\<lambda>a d. a / of_int d", OF a b c]
  obtain X_train X_test y_train y_test
    where run: "train_validation_split permutation (\<lambda>v. (of_nat (unat v) :: rat))
                  (\<lambda>a d. a / of_int d) data = Inr (X_train, X_test, y_train, y_test)"
      and len: "length X_train + length X_test = length (arr_0 data)"
        "length X_test = (length (arr_0 data) + 3) div 4"
      and tr: "\<forall>i<length X_train.
           X_train ! i
             = map_px (\<lambda>v. of_nat (unat v) / of_int 255)
                 (arr_0 data ! (permutation (length (arr_0 data)) ! (length X_test + i)))
           \<and> y_train ! i
               = fit_transform (arr_1 data)
                   ! (permutation (length (arr_0 data)) ! (length X_test + i))"
      and te: "\<forall>i<length X_test.
           X_test ! i
             = map_px (\<lambda>v. of_nat (unat v) / of_int 255)
                 (arr_0 data ! (permutation (length (arr_0 data)) ! i))
           \<and> y_test ! i = fit_transform (arr_1 data) ! (permutation (length (arr_0 data)) ! i)"
    by blast
  from len n have lens: "length X_test = 1" "length X_train = 3"
    by simp_all
  from tr lens have "X_train ! 0
        = map_px (\<lambda>v. of_nat (unat v) / of_int 255) (arr_0 data ! (permutation 4 ! 1))
      \<and> y_train ! 0 = fit_transform (arr_1 data) ! (permutation 4 ! 1)"
    by (simp add: n)
  then have "X_train ! 0 = map_px (\<lambda>v. of_nat (unat v) / of_int 255) (arr_0 data ! 2)
      \<and> y_train ! 0 = [2, 1, 2, 0] ! 2"
    by (simp only: p codes)
  then have "px (X_train ! 0) 0 0 0 = 30 / 255 \<and> y_train ! 0 = 2"
    by (simp add: data_def map_px_def)
  moreover from te lens have "X_test ! 0
        = map_px (\<lambda>v. of_nat (unat v) / of_int 255) (arr_0 data ! (permutation 4 ! 0))
      \<and> y_test ! 0 = fit_transform (arr_1 data) ! (permutation 4 ! 0)"
    by (simp add: n)
  then have "X_test ! 0 = map_px (\<lambda>v. of_nat (unat v) / of_int 255) (arr_0 data ! 3)
      \<and> y_test ! 0 = [2, 1, 2, 0] ! 3"
    by (simp only: p codes)
  then have "px (X_test ! 0) 0 0 0 = 40 / 255 \<and> y_test ! 0 = 0"
    by (simp add: data_def map_px_def)
  ultimately show ?thesis
    using run lens unfolding data_def permutation_def by blast
qed

section \<open>Properties of the rescaling\<close>

lemma round_half_even_cases:
  "round_half_even x = \<lfloor>x\<rfloor> \<or> round_half_even x = \<lfloor>x\<rfloor> + 1"
  by (simp add: round_half_even_def Let_def)

lemma round_half_even_of_int: "round_half_even (of_int k) = k"
  by (simp add: round_half_even_def Let_def)

lemma round_half_even_nonneg: "0 \<le> x \<Longrightarrow> 0 \<le> round_half_even x"
  using round_half_even_cases [of x] by (auto simp: zero_le_floor)

lemma round_half_even_le:
  assumes "x \<le> of_int N"
  shows "round_half_even x \<le> N"
proof (cases "x = of_int N")
  case True
  then show ?thesis by (simp add: round_half_even_of_int)
next
  case False
  with assms have "x < of_int N" by simp
  then have "\<lfloor>x\<rfloor> < N" by (simp add: floor_less_iff)
  then show ?thesis
    using round_half_even_cases [of x] by auto
qed

text \<open>The rounding goes to a nearest integer.\<close>

lemma round_half_even_nearest: "\<bar>of_int (round_half_even x) - x\<bar> \<le> 1 / 2"
proof -
  have "of_int \<lfloor>x\<rfloor> \<le> x" and "x < of_int \<lfloor>x\<rfloor> + 1"
    by linarith+
  then show ?thesis
    by (auto simp: round_half_even_def Let_def abs_le_iff)
qed

lemma binade_le_0:
  assumes "0 < q" and "q \<le> 1"
  shows "binade q \<le> 0"
proof (cases "q = 1")
  case True
  have "bitlen 1 = 1"
    by (rule antisym) (simp_all add: bitlen_le_iff_power bitlen_ge_iff_power)
  with True show ?thesis by (simp add: binade_def)
next
  case False
  with assms have "\<not> 1 \<le> q" by simp
  then show ?thesis
    using bitlen_nonneg [of "\<lceil>1 / q\<rceil> - 1"] by (simp add: binade_def)
qed

lemma f32_round_unit:
  assumes "0 \<le> q" and "q \<le> 1"
  shows "0 \<le> f32_round q \<and> f32_round q \<le> 1"
proof (cases "q = 0")
  case True
  then show ?thesis by (simp add: f32_round_def)
next
  case False
  with assms have pos: "0 < q" by simp
  define e where "e = max (binade \<bar>q\<bar>) (- 126)"
  define ulp :: rat where "ulp = 2 powi (e - 23)"
  have e0: "e \<le> 0"
    using binade_le_0 [OF pos assms(2)] pos by (simp add: e_def)
  have ulp0: "0 < ulp"
    by (simp add: ulp_def zero_less_power_int)
  have inv: "1 / ulp = of_int (2 ^ nat (23 - e))"
    using e0 by (simp add: ulp_def power_int_def divide_simps nat_diff_distrib)
  have res: "f32_round q = of_int (round_half_even (q / ulp)) * ulp"
    using False by (simp add: f32_round_def Let_def e_def ulp_def)
  have "0 \<le> q / ulp"
    using pos ulp0 by simp
  then have lo: "0 \<le> round_half_even (q / ulp)"
    by (rule round_half_even_nonneg)
  have "q / ulp \<le> 1 / ulp"
    using assms(2) ulp0 by (simp add: divide_right_mono)
  then have "round_half_even (q / ulp) \<le> 2 ^ nat (23 - e)"
    unfolding inv by (rule round_half_even_le)
  then have "(of_int (round_half_even (q / ulp)) :: rat) \<le> of_int (2 ^ nat (23 - e))"
    by (simp only: of_int_le_iff)
  then have "of_int (round_half_even (q / ulp)) * ulp \<le> (1 / ulp) * ulp"
    unfolding inv using ulp0 by (intro mult_right_mono) simp_all
  then have hi: "of_int (round_half_even (q / ulp)) * ulp \<le> 1"
    using ulp0 by simp
  from lo ulp0 have "0 \<le> of_int (round_half_even (q / ulp)) * ulp"
    by simp
  with hi res show ?thesis by simp
qed

lemma bitlen_1: "bitlen 1 = 1"
  by (rule antisym) (simp_all add: bitlen_le_iff_power bitlen_ge_iff_power)

lemma bitlen_255: "bitlen 255 = 8"
  by (rule antisym) (simp_all add: bitlen_le_iff_power bitlen_ge_iff_power)

lemma f32_round_exact:
  assumes "q \<noteq> 0" and "q / 2 powi (max (binade \<bar>q\<bar>) (- 126) - 23) = of_int m"
  shows "f32_round q = q"
proof -
  have "(2 :: rat) powi (max (binade \<bar>q\<bar>) (- 126) - 23) \<noteq> 0"
    by simp
  then have "of_int m * 2 powi (max (binade \<bar>q\<bar>) (- 126) - 23) = q"
    using assms(2) by (simp add: divide_simps)
  then show ?thesis
    using assms by (simp add: f32_round_def Let_def round_half_even_of_int)
qed

lemma f32_round_255: "f32_round 255 = 255"
proof -
  have "binade \<bar>255\<bar> = 7"
    by (simp add: binade_def bitlen_255)
  then have "(255 :: rat) / 2 powi (max (binade \<bar>255\<bar>) (- 126) - 23) = of_int (255 * 2 ^ 16)"
    by (simp add: power_int_def power_one_over)
  then show ?thesis
    by (intro f32_round_exact) simp_all
qed

lemma f32_round_1: "f32_round 1 = 1"
proof -
  have "binade \<bar>1\<bar> = 0"
    by (simp add: binade_def bitlen_1)
  then have "(1 :: rat) / 2 powi (max (binade \<bar>1\<bar>) (- 126) - 23) = of_int (2 ^ 23)"
    by (simp add: power_int_def power_one_over)
  then show ?thesis
    by (intro f32_round_exact) simp_all
qed

lemma f32_rescale_unit:
  "0 \<le> f32_truediv (f32_of_uint8 v) 255 \<and> f32_truediv (f32_of_uint8 v) 255 \<le> 1"
proof -
  define n where "n = unat v"
  have "n < 2 ^ 8"
    using unsigned_less [of v] by (simp add: n_def)
  then have "n \<le> 255"
    by simp
  then have "(of_nat n :: rat) \<le> of_nat 255"
    by (simp only: of_nat_le_iff)
  then have "0 \<le> (of_nat n :: rat) / 255" and "(of_nat n :: rat) / 255 \<le> 1"
    by simp_all
  from f32_round_unit [OF this] show ?thesis
    by (simp only: f32_truediv_def f32_of_uint8_def f32_round_255 n_def of_int_numeral)
qed

lemma f32_rescale_255: "f32_truediv (f32_of_uint8 255) 255 = 1"
  by (simp add: f32_truediv_def f32_of_uint8_def f32_round_255 f32_round_1)

lemma binade_bounds:
  assumes "0 < q"
  shows "2 powi binade q \<le> q \<and> q < 2 powi (binade q + 1)"
proof (cases "1 \<le> q")
  case True
  define n where "n = \<lfloor>q\<rfloor>"
  define b where "b = bitlen n"
  have n1: "1 \<le> n"
    using True by (simp add: n_def le_floor_iff)
  then have n0: "0 < n" by simp
  have b1: "1 \<le> b"
    using n0 bitlen_eq_zero_iff [of n] bitlen_nonneg [of n] by (simp add: b_def)
  have e: "binade q = b - 1"
    using True by (simp add: binade_def n_def b_def)
  from bitlen_bounds [OF n0] have lo: "2 ^ nat (b - 1) \<le> n" and hi: "n < 2 ^ nat b"
    by (simp_all add: b_def)
  have "(2 :: rat) powi (b - 1) = of_int (2 ^ nat (b - 1))"
    using b1 by (simp add: power_int_def)
  also have "\<dots> \<le> of_int n"
    using lo by (simp only: of_int_le_iff)
  also have "\<dots> \<le> q"
    by (simp add: n_def)
  finally have low: "2 powi (b - 1) \<le> q" .
  have "q < of_int (n + 1)"
    by (simp add: n_def; linarith)
  also have "\<dots> \<le> of_int (2 ^ nat b)"
  proof -
    from hi have "n + 1 \<le> 2 ^ nat b" by linarith
    then show ?thesis by (simp only: of_int_le_iff)
  qed
  also have "\<dots> = 2 powi b"
    using b1 by (simp add: power_int_def)
  finally have "q < 2 powi b" .
  with low e show ?thesis by simp
next
  case False
  then have q1: "q < 1" by simp
  define m where "m = \<lceil>1 / q\<rceil>"
  define k where "k = bitlen (m - 1)"
  have inv: "1 < 1 / q"
    using assms q1 by simp
  then have m2: "2 \<le> m"
    by (simp add: m_def; linarith)
  then have m0: "0 < m - 1" by simp
  have k1: "1 \<le> k"
    using m0 bitlen_eq_zero_iff [of "m - 1"] bitlen_nonneg [of "m - 1"] by (simp add: k_def)
  have e: "binade q = - k"
    using False by (simp add: binade_def m_def k_def)
  from bitlen_bounds [OF m0] have lo: "2 ^ nat (k - 1) \<le> m - 1" and hi: "m - 1 < 2 ^ nat k"
    by (simp_all add: k_def)
  define K :: rat where "K = of_int (2 ^ nat k)"
  define L :: rat where "L = of_int (2 ^ nat (k - 1))"
  have K0: "0 < K" and L0: "0 < L"
    by (simp_all add: K_def L_def)
  have "1 / q \<le> of_int m"
    by (simp add: m_def)
  also have "\<dots> \<le> K"
  proof -
    from hi have "m \<le> 2 ^ nat k" by linarith
    then show ?thesis unfolding K_def by (simp only: of_int_le_iff)
  qed
  finally have "1 / q \<le> K" .
  then have "1 \<le> K * q"
    using assms by (simp only: pos_divide_le_eq)
  then have "1 \<le> q * K"
    by (simp only: mult.commute)
  then have "1 / K \<le> q"
    using K0 by (simp only: pos_divide_le_eq)
  moreover have "(2 :: rat) powi (- k) = 1 / K"
    using k1 by (simp add: K_def power_int_def power_one_over inverse_eq_divide)
  ultimately have low: "2 powi (- k) \<le> q"
    by simp
  have "L \<le> of_int (m - 1)"
    unfolding L_def using lo by (simp only: of_int_le_iff)
  also have "\<dots> < 1 / q"
    by (simp add: m_def; linarith)
  finally have "L < 1 / q" .
  then have "L * q < 1"
    using assms by (simp only: pos_less_divide_eq)
  then have "q * L < 1"
    by (simp only: mult.commute)
  then have "q < 1 / L"
    using L0 by (simp only: pos_less_divide_eq)
  moreover have "(2 :: rat) powi (- k + 1) = 1 / L"
  proof (cases "k = 1")
    case True
    then show ?thesis by (simp add: L_def)
  next
    case False
    with k1 have "- k + 1 < 0" and "nat (k - 1) = nat (- (- k + 1))"
      by simp_all
    then show ?thesis
      by (simp add: L_def power_int_def power_one_over inverse_eq_divide)
  qed
  ultimately have "q < 2 powi (- k + 1)"
    by simp
  with low e show ?thesis by simp
qed

text \<open>
  The rounding is to a nearest value of the format: the result differs from the exact
  value by at most half a unit in the last place.
\<close>

lemma f32_round_nearest:
  "\<bar>f32_round q - q\<bar> \<le> 2 powi (max (binade \<bar>q\<bar>) (- 126) - 23) / 2"
proof (cases "q = 0")
  case True
  then show ?thesis by (simp add: f32_round_def)
next
  case False
  define ulp :: rat where "ulp = 2 powi (max (binade \<bar>q\<bar>) (- 126) - 23)"
  have ulp0: "0 < ulp"
    by (simp add: ulp_def zero_less_power_int)
  have "f32_round q - q = (of_int (round_half_even (q / ulp)) - q / ulp) * ulp"
    using False ulp0 by (simp add: f32_round_def Let_def ulp_def [symmetric] algebra_simps)
  then have "\<bar>f32_round q - q\<bar> = \<bar>of_int (round_half_even (q / ulp)) - q / ulp\<bar> * ulp"
    using ulp0 by (simp add: abs_mult)
  also have "\<dots> \<le> (1 / 2) * ulp"
    using round_half_even_nearest [of "q / ulp"] ulp0 by (intro mult_right_mono) simp_all
  finally show ?thesis
    by (simp add: ulp_def)
qed

text \<open>
  Two values of the model against the bit patterns \<^verbatim>\<open>0x3B808081\<close> and \<^verbatim>\<open>0x3F008081\<close>
  that single precision gives for \<open>1 / 255\<close> and \<open>128 / 255\<close>.
\<close>

lemma bitlen_254: "bitlen 254 = 8"
  by (rule antisym) (simp_all add: bitlen_le_iff_power bitlen_ge_iff_power)

lemma binade_1_255: "binade \<bar>1 / 255\<bar> = - 8"
proof -
  have "\<lceil>(255 :: rat)\<rceil> = 255"
    using ceiling_of_int [of 255, where ?'a = rat] by simp
  then show ?thesis
    by (simp add: binade_def bitlen_254)
qed

lemma floor_2_31_255: "\<lfloor>(2147483648 :: rat) / 255\<rfloor> = 8421504"
  using floor_divide_of_int_eq [of 2147483648 255, where ?'a = rat] by simp

lemma round_2_31_255: "round_half_even (2147483648 / 255) = 8421505"
  unfolding round_half_even_def Let_def floor_2_31_255 by simp

lemma ulp_1_255: "(2 :: rat) powi (max (binade \<bar>1 / 255\<bar>) (- 126) - 23) = 1 / 2147483648"
  unfolding binade_1_255 by (simp add: power_int_def power_one_over)

lemma f32_round_1_255: "f32_round (1 / 255) = 8421505 / 2147483648"
proof -
  have "(1 / 255 :: rat) / (1 / 2147483648) = 2147483648 / 255"
    by simp
  then have "f32_round (1 / 255) = of_int (round_half_even (2147483648 / 255)) * (1 / 2147483648)"
    unfolding f32_round_def Let_def ulp_1_255 by simp
  then show ?thesis
    unfolding round_2_31_255 by simp
qed

lemma binade_128_255: "binade \<bar>128 / 255\<bar> = - 1"
proof -
  have "\<lfloor>- (255 :: rat) / 128\<rfloor> = - 2"
    using floor_divide_of_int_eq [of "- 255" 128, where ?'a = rat] by simp
  then have "\<lceil>(255 :: rat) / 128\<rceil> = 2"
    by (simp add: ceiling_def)
  then show ?thesis
    by (simp add: binade_def bitlen_1)
qed

lemma ulp_128_255: "(2 :: rat) powi (max (binade \<bar>128 / 255\<bar>) (- 126) - 23) = 1 / 16777216"
  unfolding binade_128_255 by (simp add: power_int_def power_one_over)

lemma f32_round_128_255: "f32_round (128 / 255) = 8421505 / 16777216"
proof -
  have "(128 / 255 :: rat) / (1 / 16777216) = 2147483648 / 255"
    by simp
  then have "f32_round (128 / 255)
      = of_int (round_half_even (2147483648 / 255)) * (1 / 16777216)"
    unfolding f32_round_def Let_def ulp_128_255 by simp
  then show ?thesis
    unfolding round_2_31_255 by simp
qed

lemma f32_rescale_samples:
  "f32_truediv (f32_of_uint8 1) 255 = 8421505 / 2 ^ 31"
  "f32_truediv (f32_of_uint8 128) 255 = 8421505 / 2 ^ 24"
  by (simp_all add: f32_truediv_def f32_of_uint8_def f32_round_255 f32_round_1_255
      f32_round_128_255)

lemma train_validation_split_ok:
  assumes "length (arr_1 data) = length (arr_0 data)" and "2 \<le> length (arr_0 data)"
  shows "train_validation_split permutation astype_float32 truediv data
           = Inr (map (\<lambda>i. map_px (\<lambda>v. truediv (astype_float32 v) 255) (arr_0 data ! i))
                    (take (length (arr_0 data) - (length (arr_0 data) + 3) div 4)
                       (drop ((length (arr_0 data) + 3) div 4)
                          (permutation (length (arr_0 data))))),
                  map (\<lambda>i. map_px (\<lambda>v. truediv (astype_float32 v) 255) (arr_0 data ! i))
                    (take ((length (arr_0 data) + 3) div 4) (permutation (length (arr_0 data)))),
                  map (\<lambda>i. fit_transform (arr_1 data) ! i)
                    (take (length (arr_0 data) - (length (arr_0 data) + 3) div 4)
                       (drop ((length (arr_0 data) + 3) div 4)
                          (permutation (length (arr_0 data))))),
                  map (\<lambda>i. fit_transform (arr_1 data) ! i)
                    (take ((length (arr_0 data) + 3) div 4) (permutation (length (arr_0 data)))))"
proof -
  have "length (fit_transform (arr_1 data)) = length (arr_0 data)"
    using assms(1) by (simp add: fit_transform_def)
  from train_test_split_ok [OF this assms(2), of permutation] show ?thesis
    by (simp add: train_validation_split_def Let_def map_px_map_px comp_def)
qed

lemma rescaled_image:
  "shape (map_px (\<lambda>v. f32_truediv (f32_of_uint8 v) 255) src) = shape src
   \<and> (\<forall>r c k.
         px (map_px (\<lambda>v. f32_truediv (f32_of_uint8 v) 255) src) r c k
           = f32_truediv (f32_of_uint8 (px src r c k)) 255
         \<and> 0 \<le> px (map_px (\<lambda>v. f32_truediv (f32_of_uint8 v) 255) src) r c k
         \<and> px (map_px (\<lambda>v. f32_truediv (f32_of_uint8 v) 255) src) r c k \<le> 1
         \<and> (px src r c k = 255 \<longrightarrow>
              px (map_px (\<lambda>v. f32_truediv (f32_of_uint8 v) 255) src) r c k = 1))"
  using f32_rescale_unit f32_rescale_255 by (simp add: map_px_def shape_def)

lemma permutation_covers:
  assumes "mset p = mset [0..<n]" and "j < n" and "n_test \<le> n"
  shows "(\<exists>i<n - n_test. p ! (n_test + i) = j) \<or> (\<exists>i<n_test. p ! i = j)"
proof -
  have len: "length p = n"
    using mset_eq_length [OF assms(1)] by simp
  have "set p = {0..<n}"
    using mset_eq_setD [OF assms(1)] by simp
  with assms(2) have "j \<in> set p"
    by simp
  then obtain m where m: "m < n" "p ! m = j"
    using len by (auto simp: in_set_conv_nth)
  show ?thesis
  proof (cases "m < n_test")
    case True
    with m show ?thesis by blast
  next
    case False
    then have "m - n_test < n - n_test" and "p ! (n_test + (m - n_test)) = j"
      using m by simp_all
    then show ?thesis by blast
  qed
qed

text \<open>
  Claim C6. Take an archive of at least two \<^verbatim>\<open>uint8\<close> images with as many labels as
  images, and a shuffled index range \<open>p\<close>. Then \<^verbatim>\<open>train_validation_split\<close> returns, and
  \<^verbatim>\<open>X_train\<close> and \<^verbatim>\<open>X_test\<close> are not empty and hold as many images as the archive
  together. Train element \<open>i\<close> comes from the archive image at \<open>p[n_test + i]\<close> and test
  element \<open>i\<close> from the one at \<open>p[i]\<close>: it has the shape of that image, each of its pixel
  values is the \<^verbatim>\<open>uint8\<close> value converted to single precision and divided by 255, lies
  in the closed interval from 0 to 1, and is exactly 1 where the archive pixel is 255.
  Every image of the archive is returned in one of the two arrays. For every \<^verbatim>\<open>uint8\<close>
  value the rescaled value lies from 0 to 1, and 255 gives exactly 1.
\<close>

theorem rescaled_pixels_unit_interval:
  assumes "mset (permutation (length (arr_0 data))) = mset [0..<length (arr_0 data)]"
    and "length (arr_1 data) = length (arr_0 data)"
    and "2 \<le> length (arr_0 data)"
  shows "\<exists>X_train X_test y_train y_test.
           train_validation_split permutation f32_of_uint8 f32_truediv data
             = Inr (X_train, X_test, y_train, y_test)
           \<and> length X_train + length X_test = length (arr_0 data)
           \<and> 0 < length X_train \<and> 0 < length X_test
           \<and> (\<forall>i<length X_train. \<exists>j<length (arr_0 data).
                 j = permutation (length (arr_0 data)) ! (length X_test + i)
                 \<and> shape (X_train ! i) = shape (arr_0 data ! j)
                 \<and> (\<forall>r c k.
                       px (X_train ! i) r c k
                         = f32_truediv (f32_of_uint8 (px (arr_0 data ! j) r c k)) 255
                       \<and> 0 \<le> px (X_train ! i) r c k \<and> px (X_train ! i) r c k \<le> 1
                       \<and> (px (arr_0 data ! j) r c k = 255 \<longrightarrow> px (X_train ! i) r c k = 1)))
           \<and> (\<forall>i<length X_test. \<exists>j<length (arr_0 data).
                 j = permutation (length (arr_0 data)) ! i
                 \<and> shape (X_test ! i) = shape (arr_0 data ! j)
                 \<and> (\<forall>r c k.
                       px (X_test ! i) r c k
                         = f32_truediv (f32_of_uint8 (px (arr_0 data ! j) r c k)) 255
                       \<and> 0 \<le> px (X_test ! i) r c k \<and> px (X_test ! i) r c k \<le> 1
                       \<and> (px (arr_0 data ! j) r c k = 255 \<longrightarrow> px (X_test ! i) r c k = 1)))
           \<and> (\<forall>j<length (arr_0 data).
                 (\<exists>i<length X_train. permutation (length (arr_0 data)) ! (length X_test + i) = j)
                 \<or> (\<exists>i<length X_test. permutation (length (arr_0 data)) ! i = j))
           \<and> (\<forall>v. 0 \<le> f32_truediv (f32_of_uint8 v) 255 \<and> f32_truediv (f32_of_uint8 v) 255 \<le> 1)
           \<and> f32_truediv (f32_of_uint8 255) 255 = 1"
proof -
  define x where "x = arr_0 data"
  define n where "n = length x"
  define p where "p = permutation n"
  define n_test where "n_test = (n + 3) div 4"
  define rescale :: "8 word ndarray \<Rightarrow> rat ndarray"
    where "rescale = map_px (\<lambda>v. f32_truediv (f32_of_uint8 v) 255)"
  define X_train where "X_train = map (\<lambda>i. rescale (x ! i)) (take (n - n_test) (drop n_test p))"
  define X_test where "X_test = map (\<lambda>i. rescale (x ! i)) (take n_test p)"
  define y_train
    where "y_train = map (\<lambda>i. fit_transform (arr_1 data) ! i) (take (n - n_test) (drop n_test p))"
  define y_test
    where "y_test = map (\<lambda>i. fit_transform (arr_1 data) ! i) (take n_test p)"
  have n2: "2 \<le> n"
    using assms(3) by (simp add: n_def x_def)
  have perm: "mset p = mset [0..<n]"
    using assms(1) by (simp add: p_def n_def x_def)
  have lenp: "length p = n"
    using mset_eq_length [OF perm] by simp
  have nt: "n_test \<le> n" "0 < n_test" "0 < n - n_test"
    using n2 by (simp_all add: n_test_def)
  have run: "train_validation_split permutation f32_of_uint8 f32_truediv data
      = Inr (X_train, X_test, y_train, y_test)"
    using train_validation_split_ok [OF assms(2,3), of permutation f32_of_uint8 f32_truediv]
    by (simp add: X_train_def X_test_def y_train_def y_test_def rescale_def p_def n_test_def
        n_def x_def)
  have lens: "length X_train = n - n_test" "length X_test = n_test"
    using lenp nt by (simp_all add: X_train_def X_test_def)
  have pix: "shape (rescale src) = shape src
      \<and> (\<forall>r c k.
            px (rescale src) r c k = f32_truediv (f32_of_uint8 (px src r c k)) 255
            \<and> 0 \<le> px (rescale src) r c k \<and> px (rescale src) r c k \<le> 1
            \<and> (px src r c k = 255 \<longrightarrow> px (rescale src) r c k = 1))" for src
    unfolding rescale_def by (rule rescaled_image)
  have train: "\<exists>j<n. j = p ! (n_test + i)
      \<and> shape (X_train ! i) = shape (x ! j)
      \<and> (\<forall>r c k.
            px (X_train ! i) r c k = f32_truediv (f32_of_uint8 (px (x ! j) r c k)) 255
            \<and> 0 \<le> px (X_train ! i) r c k \<and> px (X_train ! i) r c k \<le> 1
            \<and> (px (x ! j) r c k = 255 \<longrightarrow> px (X_train ! i) r c k = 1))"
    if "i < n - n_test" for i
  proof -
    have j: "p ! (n_test + i) < n"
      using that by (intro permutation_nth [OF perm]) simp
    have eq: "X_train ! i = rescale (x ! (p ! (n_test + i)))"
      using that lenp by (simp add: X_train_def)
    from pix [of "x ! (p ! (n_test + i))"] j show ?thesis
      unfolding eq by blast
  qed
  have test: "\<exists>j<n. j = p ! i
      \<and> shape (X_test ! i) = shape (x ! j)
      \<and> (\<forall>r c k.
            px (X_test ! i) r c k = f32_truediv (f32_of_uint8 (px (x ! j) r c k)) 255
            \<and> 0 \<le> px (X_test ! i) r c k \<and> px (X_test ! i) r c k \<le> 1
            \<and> (px (x ! j) r c k = 255 \<longrightarrow> px (X_test ! i) r c k = 1))"
    if "i < n_test" for i
  proof -
    have j: "p ! i < n"
      using that nt by (intro permutation_nth [OF perm]) simp
    have eq: "X_test ! i = rescale (x ! (p ! i))"
      using that lenp nt by (simp add: X_test_def)
    from pix [of "x ! (p ! i)"] j show ?thesis
      unfolding eq by blast
  qed
  have l1: "length X_train + length X_test = n"
    and l2: "0 < length X_train" and l3: "0 < length X_test"
    using nt by (simp_all add: lens)
  have tr: "\<forall>i<length X_train. \<exists>j<n. j = p ! (length X_test + i)
      \<and> shape (X_train ! i) = shape (x ! j)
      \<and> (\<forall>r c k.
            px (X_train ! i) r c k = f32_truediv (f32_of_uint8 (px (x ! j) r c k)) 255
            \<and> 0 \<le> px (X_train ! i) r c k \<and> px (X_train ! i) r c k \<le> 1
            \<and> (px (x ! j) r c k = 255 \<longrightarrow> px (X_train ! i) r c k = 1))"
    using train unfolding lens by blast
  have te: "\<forall>i<length X_test. \<exists>j<n. j = p ! i
      \<and> shape (X_test ! i) = shape (x ! j)
      \<and> (\<forall>r c k.
            px (X_test ! i) r c k = f32_truediv (f32_of_uint8 (px (x ! j) r c k)) 255
            \<and> 0 \<le> px (X_test ! i) r c k \<and> px (X_test ! i) r c k \<le> 1
            \<and> (px (x ! j) r c k = 255 \<longrightarrow> px (X_test ! i) r c k = 1))"
    using test unfolding lens by blast
  have cov: "\<forall>j<n. (\<exists>i<length X_train. p ! (length X_test + i) = j)
      \<or> (\<exists>i<length X_test. p ! i = j)"
    using permutation_covers [OF perm _ nt(1)] unfolding lens by blast
  have unit: "\<forall>v. 0 \<le> f32_truediv (f32_of_uint8 v) 255 \<and> f32_truediv (f32_of_uint8 v) 255 \<le> 1"
    using f32_rescale_unit by blast
  from run l1 l2 l3 tr te cov unit f32_rescale_255
  have "train_validation_split permutation f32_of_uint8 f32_truediv data
          = Inr (X_train, X_test, y_train, y_test)
      \<and> length X_train + length X_test = n
      \<and> 0 < length X_train \<and> 0 < length X_test
      \<and> (\<forall>i<length X_train. \<exists>j<n. j = p ! (length X_test + i)
            \<and> shape (X_train ! i) = shape (x ! j)
            \<and> (\<forall>r c k.
                  px (X_train ! i) r c k = f32_truediv (f32_of_uint8 (px (x ! j) r c k)) 255
                  \<and> 0 \<le> px (X_train ! i) r c k \<and> px (X_train ! i) r c k \<le> 1
                  \<and> (px (x ! j) r c k = 255 \<longrightarrow> px (X_train ! i) r c k = 1)))
      \<and> (\<forall>i<length X_test. \<exists>j<n. j = p ! i
            \<and> shape (X_test ! i) = shape (x ! j)
            \<and> (\<forall>r c k.
                  px (X_test ! i) r c k = f32_truediv (f32_of_uint8 (px (x ! j) r c k)) 255
                  \<and> 0 \<le> px (X_test ! i) r c k \<and> px (X_test ! i) r c k \<le> 1
                  \<and> (px (x ! j) r c k = 255 \<longrightarrow> px (X_test ! i) r c k = 1)))
      \<and> (\<forall>j<n. (\<exists>i<length X_train. p ! (length X_test + i) = j)
            \<or> (\<exists>i<length X_test. p ! i = j))
      \<and> (\<forall>v. 0 \<le> f32_truediv (f32_of_uint8 v) 255 \<and> f32_truediv (f32_of_uint8 v) 255 \<le> 1)
      \<and> f32_truediv (f32_of_uint8 255) 255 = 1"
    by (intro conjI)
  then show ?thesis
    unfolding p_def n_def x_def by blast
qed

theorem rescaled_pixels_unit_interval_witness:
  "\<exists>X_train X_test y_train y_test.
     train_validation_split (\<lambda>n. rev [0..<n]) f32_of_uint8 f32_truediv
       \<lparr>arr_0 = [\<lparr>rows = 1, cols = 1, chans = 3, px = (\<lambda>r c k. 255)\<rparr>,
                 \<lparr>rows = 1, cols = 1, chans = 3, px = (\<lambda>r c k. 7)\<rparr>],
        arr_1 = [''rose'', ''lily'']\<rparr>
       = Inr (X_train, X_test, y_train, y_test)
     \<and> length X_train = 1 \<and> length X_test = 1
     \<and> px (X_train ! 0) 0 0 0 = 1
     \<and> px (X_test ! 0) 0 0 0 = f32_truediv (f32_of_uint8 7) 255
     \<and> 0 \<le> px (X_test ! 0) 0 0 0 \<and> px (X_test ! 0) 0 0 0 \<le> 1"
proof -
  define data :: npz
    where "data = \<lparr>arr_0 = [\<lparr>rows = 1, cols = 1, chans = 3, px = (\<lambda>r c k. 255)\<rparr>,
                            \<lparr>rows = 1, cols = 1, chans = 3, px = (\<lambda>r c k. 7)\<rparr>],
                   arr_1 = [''rose'', ''lily'']\<rparr>"
  define permutation :: "nat \<Rightarrow> nat list" where "permutation = (\<lambda>n. rev [0..<n])"
  have perm: "mset (permutation (length (arr_0 data))) = mset [0..<length (arr_0 data)]"
    by (simp add: permutation_def)
  have lens: "length (arr_1 data) = length (arr_0 data)"
    by (simp add: data_def)
  have n2: "2 \<le> length (arr_0 data)"
    by (simp add: data_def)
  have p0: "permutation (length (arr_0 data)) ! 0 = 1"
    and p1: "permutation (length (arr_0 data)) ! 1 = 0"
    by (simp_all add: permutation_def data_def)
  have src0: "px (arr_0 data ! 0) 0 0 0 = 255" and src1: "px (arr_0 data ! 1) 0 0 0 = 7"
    by (simp_all add: data_def)
  from rescaled_pixels_unit_interval [of permutation data, OF perm lens n2]
  obtain X_train X_test y_train y_test
    where run: "train_validation_split permutation f32_of_uint8 f32_truediv data
                  = Inr (X_train, X_test, y_train, y_test)"
      and sum: "length X_train + length X_test = length (arr_0 data)"
      and pos: "0 < length X_train" "0 < length X_test"
      and tr: "\<forall>i<length X_train. \<exists>j<length (arr_0 data).
                 j = permutation (length (arr_0 data)) ! (length X_test + i)
                 \<and> shape (X_train ! i) = shape (arr_0 data ! j)
                 \<and> (\<forall>r c k.
                       px (X_train ! i) r c k
                         = f32_truediv (f32_of_uint8 (px (arr_0 data ! j) r c k)) 255
                       \<and> 0 \<le> px (X_train ! i) r c k \<and> px (X_train ! i) r c k \<le> 1
                       \<and> (px (arr_0 data ! j) r c k = 255 \<longrightarrow> px (X_train ! i) r c k = 1))"
      and te: "\<forall>i<length X_test. \<exists>j<length (arr_0 data).
                 j = permutation (length (arr_0 data)) ! i
                 \<and> shape (X_test ! i) = shape (arr_0 data ! j)
                 \<and> (\<forall>r c k.
                       px (X_test ! i) r c k
                         = f32_truediv (f32_of_uint8 (px (arr_0 data ! j) r c k)) 255
                       \<and> 0 \<le> px (X_test ! i) r c k \<and> px (X_test ! i) r c k \<le> 1
                       \<and> (px (arr_0 data ! j) r c k = 255 \<longrightarrow> px (X_test ! i) r c k = 1))"
    by blast
  have "length (arr_0 data) = 2"
    by (simp add: data_def)
  with sum pos have l: "length X_train = 1" "length X_test = 1"
    by linarith+
  from tr pos(1) have "px (arr_0 data ! (permutation (length (arr_0 data)) ! (length X_test + 0))) 0 0 0 = 255
      \<longrightarrow> px (X_train ! 0) 0 0 0 = 1"
    by blast
  then have a: "px (X_train ! 0) 0 0 0 = 1"
    by (simp only: l p1 src0 add_0_right)
  from te pos(2) have "px (X_test ! 0) 0 0 0
        = f32_truediv (f32_of_uint8 (px (arr_0 data ! (permutation (length (arr_0 data)) ! 0)) 0 0 0)) 255
      \<and> 0 \<le> px (X_test ! 0) 0 0 0 \<and> px (X_test ! 0) 0 0 0 \<le> 1"
    by blast
  then have b: "px (X_test ! 0) 0 0 0 = f32_truediv (f32_of_uint8 7) 255
      \<and> 0 \<le> px (X_test ! 0) 0 0 0 \<and> px (X_test ! 0) 0 0 0 \<le> 1"
    unfolding p0 src1 .
  from run l a b show ?thesis
    unfolding data_def permutation_def by blast
qed

end
